theory Spec2Isabelle
  imports Complex_Main "HOL-Library.Sublist" "HOL-Library.AList"
begin

section \<open>Strings\<close>

text \<open>
  A JavaScript string is modelled as a HOL \<open>string\<close>: a list of characters, one
  character per code unit, restricted to the code units 0..255. \<open>length\<close> is the
  source's \<open>.length\<close>.

  \<open>is_ws\<close> is the set of characters that \<open>String.prototype.trim\<close> removes
  (white space and line terminators) inside that range: TAB, LF, VT, FF, CR, SPACE
  and NBSP.
\<close>

definition is_ws :: "char \<Rightarrow> bool" where
  "is_ws c = (c \<in> {CHR 0x09, CHR 0x0A, CHR 0x0B, CHR 0x0C, CHR 0x0D, CHR 0x20, CHR 0xA0})"

definition trim :: "string \<Rightarrow> string" where
  "trim s = rev (dropWhile is_ws (rev (dropWhile is_ws s)))"

text \<open>\<open>s.slice(a, b)\<close> for non-negative integer arguments.\<close>

definition slice :: "string \<Rightarrow> nat \<Rightarrow> nat \<Rightarrow> string" where
  "slice s a b = take (min b (length s) - a) (drop a s)"

text \<open>The non-whitespace characters of a text, in order.\<close>

definition non_ws :: "string \<Rightarrow> string" where
  "non_ws s = filter (\<lambda>c. \<not> is_ws c) s"

section \<open>Fixed-window chunker (src/lib/upload.ts)\<close>

text \<open>
  The \<open>while (start < text.length)\<close> loop of \<open>chunkText\<close>. With \<open>maxChars = 0\<close>
  the source never leaves the loop, so the loop is a partial function: \<open>None\<close>
  stands for a run that does not return.
\<close>

partial_function (option) chunkText_loop ::
  "string \<Rightarrow> nat \<Rightarrow> nat \<Rightarrow> string list \<Rightarrow> string list option" where
  "chunkText_loop text maxChars start chunks =
     (if start < length text then
        (let end_pos = min (start + maxChars) (length text);
             chunk = trim (slice text start end_pos)
         in chunkText_loop text maxChars end_pos
              (if chunk \<noteq> [] then chunks @ [chunk] else chunks))
      else Some chunks)"

declare chunkText_loop.simps [code]

definition chunkText :: "string \<Rightarrow> nat \<Rightarrow> string list option" where
  "chunkText text maxChars = chunkText_loop text maxChars 0 []"

section \<open>More string operations of the source\<close>

text \<open>\<open>s.split(sep)\<close> for a one-character separator: the pieces between the
  occurrences of the separator, empty pieces included.\<close>

fun cons_hd :: "char \<Rightarrow> string list \<Rightarrow> string list" where
  "cons_hd c [] = [[c]]"
| "cons_hd c (w # ws) = (c # w) # ws"

fun split_on :: "char \<Rightarrow> string \<Rightarrow> string list" where
  "split_on sep [] = [[]]"
| "split_on sep (c # cs) =
     (if c = sep then [] # split_on sep cs else cons_hd c (split_on sep cs))"

text \<open>\<open>parts.join(sep)\<close>.\<close>

fun join :: "string \<Rightarrow> string list \<Rightarrow> string" where
  "join sep [] = []"
| "join sep [w] = w"
| "join sep (w # v # ws) = w @ sep @ join sep (v # ws)"

text \<open>A number interpolated into a template string: its decimal digits.\<close>

fun show_nat :: "nat \<Rightarrow> string" where
  "show_nat n =
     (if n < 10 then [char_of (48 + n)]
      else show_nat (n div 10) @ [char_of (48 + n mod 10)])"

declare show_nat.simps [simp del]

abbreviation LF :: char where "LF \<equiv> CHR 0x0A"
abbreviation CR :: char where "CR \<equiv> CHR 0x0D"

section \<open>Word-aware chunker (the indexing route and src/scripts/index-legal-docs.ts)\<close>

record LegalSection =
  sec_id :: string
  sec_act :: string
  sec_section :: string
  sec_title :: string
  sec_description :: string
  sec_text :: "string option"

text \<open>A metadata object: its keys in insertion order, each with a value of the kinds
  the vector index stores: a string, a number (a natural number here), a boolean or a
  list of strings.\<close>

datatype jsval = JStr string | JNum nat | JBool bool | JList "string list"

type_synonym metadata = "(string \<times> jsval) list"

text \<open>What the chunkers build and the indexing loops consume: \<open>{id, text, metadata}\<close>
  (the type \<open>UploadedDoc\<close> of src/lib/upload.ts, where \<open>metadata\<close> is optional).\<close>

record UploadedDoc =
  doc_id :: string
  doc_text :: string
  doc_metadata :: "metadata option"

text \<open>The template string that both chunkers start from;
  \<open>section.text || ""\<close> is empty for a missing or empty text.\<close>

definition fullText_of :: "LegalSection \<Rightarrow> string" where
  "fullText_of section =
     sec_act section @ '' - Section '' @ sec_section section @ '': '' @ sec_title section
       @ [LF, LF] @ sec_description section
       @ [LF, LF] @ (case sec_text section of None \<Rightarrow> [] | Some t \<Rightarrow> t)"

definition section_metadata :: "LegalSection \<Rightarrow> nat option \<Rightarrow> metadata" where
  "section_metadata section chunkIndex =
     [(''act'', JStr (sec_act section)),
      (''section'', JStr (sec_section section)),
      (''title'', JStr (sec_title section)),
      (''source'', JStr ''legal_dataset'')]
     @ (case chunkIndex of None \<Rightarrow> [] | Some k \<Rightarrow> [(''chunkIndex'', JNum k)])"

definition indexed_chunk :: "LegalSection \<Rightarrow> nat \<Rightarrow> string \<Rightarrow> UploadedDoc" where
  "indexed_chunk section chunkIndex currentChunk =
     \<lparr>doc_id = sec_id section @ ''_chunk_'' @ show_nat chunkIndex,
      doc_text = trim currentChunk,
      doc_metadata = Some (section_metadata section (Some chunkIndex))\<rparr>"

text \<open>The \<open>for (const word of words)\<close> loop, the same text in both chunkers. The
  state is \<open>(currentChunk, chunkIndex, chunks)\<close>, with \<open>chunks\<close> the chunks pushed
  for this section so far.\<close>

fun word_loop ::
  "LegalSection \<Rightarrow> nat \<Rightarrow> string list \<Rightarrow> string \<times> nat \<times> UploadedDoc list
     \<Rightarrow> string \<times> nat \<times> UploadedDoc list" where
  "word_loop section chunkSize [] st = st"
| "word_loop section chunkSize (word # words) (currentChunk, chunkIndex, chunks) =
     (if length (currentChunk @ '' '' @ word) > chunkSize \<and> length currentChunk > 0 then
        word_loop section chunkSize words
          (word, chunkIndex + 1, chunks @ [indexed_chunk section chunkIndex currentChunk])
      else
        word_loop section chunkSize words
          (currentChunk @ (if currentChunk \<noteq> [] then '' '' else []) @ word, chunkIndex, chunks))"

text \<open>The body of \<open>for (const section of sections)\<close>, given the section's
  \<open>fullText\<close>: one chunk when the text fits, the word loop and the last flush
  otherwise.\<close>

definition section_chunks :: "LegalSection \<Rightarrow> nat \<Rightarrow> string \<Rightarrow> UploadedDoc list" where
  "section_chunks section chunkSize fullText =
     (if length fullText \<le> chunkSize then
        [\<lparr>doc_id = sec_id section, doc_text = fullText,
          doc_metadata = Some (section_metadata section None)\<rparr>]
      else
        (case word_loop section chunkSize (split_on CHR '' '' fullText) ([], 0, []) of
           (currentChunk, chunkIndex, chunks) \<Rightarrow>
             if trim currentChunk \<noteq> [] then
               chunks @ [indexed_chunk section chunkIndex currentChunk]
             else chunks))"

text \<open>\<open>chunkAndPrepareDocuments\<close> of the indexing route trims \<open>fullText\<close>;
  \<open>chunkLegalSections\<close> of the script does not. Their default chunk sizes are 800
  and 1000.\<close>

definition chunkAndPrepareDocuments :: "LegalSection list \<Rightarrow> nat \<Rightarrow> UploadedDoc list" where
  "chunkAndPrepareDocuments sections chunkSize =
     concat (map (\<lambda>section. section_chunks section chunkSize (trim (fullText_of section)))
       sections)"

definition chunkLegalSections :: "LegalSection list \<Rightarrow> nat \<Rightarrow> UploadedDoc list" where
  "chunkLegalSections sections chunkSize =
     concat (map (\<lambda>section. section_chunks section chunkSize (fullText_of section)) sections)"


section \<open>External services, configuration and logging\<close>

text \<open>
  A thrown JavaScript error is a value: \<open>Error\<close>, the subclass
  \<open>ConfigurationError\<close> of src/lib/env.ts, or the \<open>TypeError\<close> of a method call
  on a value that has no such method, with its message. A function that can throw
  returns \<open>error + 'a\<close>, \<open>Inl\<close> for the throw.
\<close>

datatype error = Error string | ConfigurationError string | TypeError string

text \<open>\<open>String(error)\<close> and \<open>`${error}`\<close>, that is \<open>Error.prototype.toString\<close>:
  the name alone when the message is empty.\<close>

definition named :: "string \<Rightarrow> string \<Rightarrow> string" where
  "named name m = (if m = [] then name else name @ '': '' @ m)"

fun String_of :: "error \<Rightarrow> string" where
  "String_of (Error m) = named ''Error'' m"
| "String_of (ConfigurationError m) = named ''ConfigurationError'' m"
| "String_of (TypeError m) = named ''TypeError'' m"

datatype logger = apiLogger | ragLogger | pineconeLogger | openaiLogger | indexLogger

datatype level = DEBUG | INFO | WARN | ERROR | FATAL

type_synonym embedding = "real list"

record vector =
  vec_id :: string
  vec_values :: "embedding option"
  vec_metadata :: metadata

record match =
  match_id :: string
  match_score :: "real option"
  match_metadata :: "metadata option"

text \<open>The calls that leave the process: to the embedding service, the vector index
  and the completion service. \<open>ChatCreate\<close> carries the system and the user
  message.\<close>

datatype call =
    EmbeddingsCreate "string list"
  | IndexQuery embedding nat
  | IndexUpsert "vector list"
  | IndexStats
  | ChatCreate string string

text \<open>
  The state the functions run in: the outside world \<open>world\<close> (whatever the
  services' answers depend on), the external calls made so far, the logger calls made
  so far (logger, level, message; the structured context argument is left out), and
  the module-level variables of the source: the two cached clients and the
  \<open>initialized\<close> latch of the chat route.
\<close>

record 'w state =
  world :: 'w
  calls :: "call list"
  logs :: "(logger \<times> level \<times> string) list"
  openai_client :: bool
  pinecone_client :: bool
  initialized :: bool

text \<open>
  The environment variables (an unset variable is the empty string: the source tests
  them for truthiness only) and the behaviour of the external collaborators. Each
  service maps its arguments and the world to an answer or an error, and a new world.
  \<open>index_describeIndexStats\<close> answers with \<open>totalRecordCount\<close>, which may be
  absent; \<open>chat_completions_create\<close> with the content of the first choice, which may
  be absent.
\<close>

record 'w env =
  OPENAI_API_KEY :: string
  PINECONE_API_KEY :: string
  PINECONE_INDEX :: string
  NODE_ENV :: string
  new_OpenAI :: "error + unit"
  new_Pinecone :: "error + unit"
  embeddings_create :: "string list \<Rightarrow> 'w \<Rightarrow> (error + embedding list) \<times> 'w"
  index_query :: "embedding \<Rightarrow> nat \<Rightarrow> 'w \<Rightarrow> (error + match list) \<times> 'w"
  index_upsert :: "vector list \<Rightarrow> 'w \<Rightarrow> (error + unit) \<times> 'w"
  index_describeIndexStats :: "'w \<Rightarrow> (error + nat option) \<times> 'w"
  chat_completions_create :: "string \<Rightarrow> string \<Rightarrow> 'w \<Rightarrow> (error + string option) \<times> 'w"

definition logmsg :: "logger \<Rightarrow> level \<Rightarrow> string \<Rightarrow> 'w state \<Rightarrow> 'w state" where
  "logmsg lg lv msg s = s\<lparr>logs := logs s @ [(lg, lv, msg)]\<rparr>"

text \<open>An external call: it is recorded, and the service answers from the world.\<close>

definition external ::
  "call \<Rightarrow> ('w \<Rightarrow> 'a \<times> 'w) \<Rightarrow> 'w state \<Rightarrow> 'a \<times> 'w state" where
  "external c service s =
     (case service (world s) of
        (r, w') \<Rightarrow> (r, s\<lparr>world := w', calls := calls s @ [c]\<rparr>))"

subsection \<open>src/lib/env.ts, src/lib/openai.ts, src/lib/pinecone.ts\<close>

text \<open>\<open>getEnvConfig\<close>: \<open>getConfig\<close> throws at the first missing variable. The
  cache \<open>_config\<close> is not modelled, the variables being fixed.\<close>

definition getEnvConfig :: "'w env \<Rightarrow> error + unit" where
  "getEnvConfig env =
     (if OPENAI_API_KEY env = [] then
        Inl (ConfigurationError ''Missing required environment variable: OPENAI_API_KEY'')
      else if PINECONE_API_KEY env = [] then
        Inl (ConfigurationError ''Missing required environment variable: PINECONE_API_KEY'')
      else if PINECONE_INDEX env = [] then
        Inl (ConfigurationError ''Missing required environment variable: PINECONE_INDEX'')
      else Inr ())"

definition getOpenAIClient :: "'w env \<Rightarrow> 'w state \<Rightarrow> (error + unit) \<times> 'w state" where
  "getOpenAIClient env s =
     (if \<not> openai_client s then
        (if OPENAI_API_KEY env = [] then
           (Inl (Error ''OPENAI_API_KEY is not configured in the environment.''),
            logmsg openaiLogger FATAL ''OPENAI_API_KEY is not configured in the environment'' s)
         else
           (let s1 = logmsg openaiLogger INFO ''Initializing OpenAI client'' s in
            case new_OpenAI env of
              Inr _ \<Rightarrow>
                (Inr (), logmsg openaiLogger INFO ''OpenAI client initialized successfully''
                           (s1\<lparr>openai_client := True\<rparr>))
            | Inl e \<Rightarrow>
                (Inl e, logmsg openaiLogger ERROR ''Failed to initialize OpenAI client'' s1)))
      else (Inr (), s))"

definition embedTexts ::
  "'w env \<Rightarrow> string list \<Rightarrow> 'w state \<Rightarrow> (error + embedding list) \<times> 'w state" where
  "embedTexts env texts s =
     (if texts = [] then
        (Inr [], logmsg openaiLogger DEBUG
                   ''No texts provided for embedding, returning empty array'' s)
      else
        (let s1 = logmsg openaiLogger DEBUG
                    (''Generating embeddings for '' @ show_nat (length texts) @ '' text(s)'') s
         in case getOpenAIClient env s1 of
              (Inl e, s2) \<Rightarrow>
                (Inl e, logmsg openaiLogger ERROR ''Failed to generate embeddings'' s2)
            | (Inr _, s2) \<Rightarrow>
                (case external (EmbeddingsCreate texts) (embeddings_create env texts) s2 of
                   (Inl e, s3) \<Rightarrow>
                     (Inl e, logmsg openaiLogger ERROR ''Failed to generate embeddings'' s3)
                 | (Inr data, s3) \<Rightarrow>
                     (Inr data, logmsg openaiLogger INFO
                        (''Generated '' @ show_nat (length data) @ '' embeddings'') s3))))"

definition getPineconeClient :: "'w env \<Rightarrow> 'w state \<Rightarrow> (error + unit) \<times> 'w state" where
  "getPineconeClient env s =
     (case getEnvConfig env of
        Inl e \<Rightarrow> (Inl e, s)
      | Inr _ \<Rightarrow>
          if PINECONE_API_KEY env = [] then
            (Inl (Error ''[pinecone] PINECONE_API_KEY is not set in the environment.''),
             logmsg pineconeLogger FATAL ''PINECONE_API_KEY is not set in the environment'' s)
          else if \<not> pinecone_client s then
            (let s1 = logmsg pineconeLogger INFO ''Initializing Pinecone client'' s in
             case new_Pinecone env of
               Inr _ \<Rightarrow>
                 (Inr (), logmsg pineconeLogger INFO ''Pinecone client initialized successfully''
                            (s1\<lparr>pinecone_client := True\<rparr>))
             | Inl e \<Rightarrow>
                 (Inl e, logmsg pineconeLogger ERROR ''Failed to initialize Pinecone client'' s1))
          else (Inr (), s))"

definition getPineconeIndex :: "'w env \<Rightarrow> 'w state \<Rightarrow> (error + unit) \<times> 'w state" where
  "getPineconeIndex env s =
     (case getEnvConfig env of
        Inl e \<Rightarrow> (Inl e, s)
      | Inr _ \<Rightarrow>
          if PINECONE_INDEX env = [] then
            (Inl (Error ''[pinecone] PINECONE_INDEX is not set in the environment.''),
             logmsg pineconeLogger FATAL ''PINECONE_INDEX is not set in the environment'' s)
          else getPineconeClient env (logmsg pineconeLogger DEBUG ''Accessing Pinecone index'' s))"


subsection \<open>Retrieval and answer composition (src/lib/rag.ts)\<close>

record IndexedDoc =
  idoc_id :: jsval
  idoc_act :: jsval
  idoc_section :: "jsval option"
  idoc_title :: "jsval option"
  idoc_text :: jsval
  idoc_source :: jsval
  idoc_score :: "real option"

record SourceSnippet =
  src_id :: jsval
  src_act :: jsval
  src_section :: "jsval option"
  src_title :: "jsval option"
  src_snippet :: jsval

record ChatResult =
  answer :: string
  sources :: "SourceSnippet list"

text \<open>
  The source reads the metadata of a match through \<open>as any\<close> and casts the fields
  with \<open>as string\<close>, which checks nothing when the program runs: a field holds
  whatever value the index stored, or is \<open>undefined\<close> (\<open>None\<close>). So the fields of an
  \<open>IndexedDoc\<close> and of a \<open>SourceSnippet\<close> are values, not strings.

  \<open>js_truthy\<close> is the truth value that \<open>||\<close>, \<open>&&\<close> and \<open>filter\<close> see;
  \<open>js_string\<close> is the conversion to a string in a template string and in
  \<open>join\<close>; \<open>or_else v d\<close> is \<open>v || d\<close>.
\<close>

fun js_truthy :: "jsval \<Rightarrow> bool" where
  "js_truthy (JStr t) = (t \<noteq> [])"
| "js_truthy (JNum n) = (n \<noteq> 0)"
| "js_truthy (JBool b) = b"
| "js_truthy (JList xs) = True"

fun js_string :: "jsval \<Rightarrow> string" where
  "js_string (JStr t) = t"
| "js_string (JNum n) = show_nat n"
| "js_string (JBool b) = (if b then ''true'' else ''false'')"
| "js_string (JList xs) = join '','' xs"

definition or_else :: "jsval option \<Rightarrow> jsval \<Rightarrow> jsval" where
  "or_else v d = (case v of None \<Rightarrow> d | Some x \<Rightarrow> if js_truthy x then x else d)"

definition doc_of_match :: "match \<Rightarrow> IndexedDoc" where
  "doc_of_match m =
     (let metadata = (case match_metadata m of None \<Rightarrow> [] | Some md \<Rightarrow> md);
          text = or_else (map_of metadata ''text'')
                   (or_else (map_of metadata ''content'')
                      (or_else (map_of metadata ''body'') (JStr [])))
      in \<lparr>idoc_id = or_else (map_of metadata ''id'') (JStr (match_id m)),
          idoc_act = or_else (map_of metadata ''act'') (JStr ''Unknown act''),
          idoc_section = map_of metadata ''section'',
          idoc_title = map_of metadata ''title'',
          idoc_text = text,
          idoc_source = or_else (map_of metadata ''source'') (JStr ''pinecone''),
          idoc_score = match_score m\<rparr>)"

definition retrieveWithPinecone ::
  "'w env \<Rightarrow> string \<Rightarrow> nat \<Rightarrow> 'w state \<Rightarrow> IndexedDoc list \<times> 'w state" where
  "retrieveWithPinecone env question limit s =
     (let s1 = logmsg ragLogger DEBUG ''Starting Pinecone retrieval'' s;
          catch = (\<lambda>s'. ([], logmsg ragLogger ERROR ''Pinecone retrieval failed'' s'))
      in case embedTexts env [question] s1 of
           (Inl e, s2) \<Rightarrow> catch s2
         | (Inr [], s2) \<Rightarrow>
             ([], logmsg ragLogger WARN ''Failed to generate query embedding for question'' s2)
         | (Inr (queryEmbedding # _), s2) \<Rightarrow>
             (case getPineconeIndex env s2 of
                (Inl e, s3) \<Rightarrow> catch s3
              | (Inr _, s3) \<Rightarrow>
                  (case external (IndexQuery queryEmbedding limit)
                          (index_query env queryEmbedding limit) s3 of
                     (Inl e, s4) \<Rightarrow> catch s4
                   | (Inr matches, s4) \<Rightarrow>
                       (let s5 = logmsg ragLogger INFO ''Pinecone query completed'' s4 in
                        if matches = [] then
                          ([], logmsg ragLogger WARN
                                 ''Pinecone returned no matches for the question'' s5)
                        else
                          (let results =
                                 filter (\<lambda>doc. js_truthy (idoc_text doc)) (map doc_of_match matches)
                           in (results,
                               logmsg ragLogger DEBUG
                                 (''Filtered '' @ show_nat (length results)
                                    @ '' valid documents from '' @ show_nat (length matches)
                                    @ '' matches'') s5))))))"

definition pineconeConfigured :: "'w env \<Rightarrow> bool" where
  "pineconeConfigured env = (PINECONE_API_KEY env \<noteq> [] \<and> PINECONE_INDEX env \<noteq> [])"

definition not_configured_message :: string where
  "not_configured_message =
     ''The vector database is not configured on the server. Please set PINECONE_API_KEY and PINECONE_INDEX in the environment, or use the manual upload/indexing pipeline.''"

definition no_match_message :: string where
  "no_match_message =
     ''I could not find any matching sections in the vector database for this question. Please try rephrasing or check that the index is populated.''"

definition no_answer_message :: string where
  "no_answer_message =
     ''I was unable to generate a detailed answer from the dataset and model. Please try asking your question again with more context.''"

definition system_prompt :: string where
  "system_prompt =
     ''You are an expert Indian legal assistant (LawBot) specialising in IPC, BNS, BSA, and CrPC. You must answer strictly based on the legal CONTEXT provided. Always explain in simple language, clearly cite the relevant acts and section numbers, and include a short practical guidance section. If the context does not contain an answer, say that explicitly instead of guessing. End every answer with a short disclaimer that this is not formal legal advice. Format your response in clear Markdown with headings (e.g., ''
     @ [CHR 0x27] @ ''### Relevant sections'' @ [CHR 0x27] @ '', ''
     @ [CHR 0x27] @ ''### Explanation'' @ [CHR 0x27] @ '', ''
     @ [CHR 0x27] @ ''### Practical guidance'' @ [CHR 0x27] @ '', ''
     @ [CHR 0x27] @ ''### Disclaimer'' @ [CHR 0x27]
     @ ''). Whenever you list conditions, factors, steps, or pieces of guidance, ALWAYS format them as proper Markdown lists, with each item starting on its own line using ''
     @ [CHR 0x27] @ ''- '' @ [CHR 0x27] @ '' for bullets or ''
     @ [CHR 0x27] @ ''1.'' @ [CHR 0x27] @ '' for numbered lists.''"

text \<open>The header of a context block: \<open>doc.act\<close>,
  \<open>doc.section && `Section ${doc.section}`\<close> and \<open>doc.title\<close>, the falsy ones
  filtered out, joined with \<open>" - "\<close>. An \<open>undefined\<close> part is falsy, as the empty
  string that stands for it here.\<close>

definition headerParts :: "IndexedDoc \<Rightarrow> string" where
  "headerParts doc =
     join '' - ''
       (map js_string
          (filter js_truthy
             [idoc_act doc,
              (case idoc_section doc of
                 None \<Rightarrow> JStr []
               | Some v \<Rightarrow> if js_truthy v then JStr (''Section '' @ js_string v) else v),
              (case idoc_title doc of None \<Rightarrow> JStr [] | Some v \<Rightarrow> v)]))"

definition contextBlock :: "IndexedDoc \<Rightarrow> string" where
  "contextBlock doc = headerParts doc @ [LF, LF] @ js_string (idoc_text doc)"

definition context_of :: "IndexedDoc list \<Rightarrow> string" where
  "context_of topDocs = join ([LF, LF] @ ''---'' @ [LF, LF]) (map contextBlock topDocs)"

definition user_message :: "string \<Rightarrow> string \<Rightarrow> string" where
  "user_message trimmed context =
     ''User question: '' @ trimmed @ [LF, LF] @ ''CONTEXT FROM LEGAL SECTIONS:'' @ [LF] @ context"

text \<open>\<open>doc.text.slice(0, 280)\<close>: a string and a list have the method; on a number or
  a boolean the call throws.\<close>

fun slice280 :: "jsval \<Rightarrow> error + jsval" where
  "slice280 (JStr t) = Inr (JStr (take 280 t))"
| "slice280 (JList xs) = Inr (JList (take 280 xs))"
| "slice280 (JNum n) = Inl (TypeError ''doc.text.slice is not a function'')"
| "slice280 (JBool b) = Inl (TypeError ''doc.text.slice is not a function'')"

text \<open>\<open>topDocs.map((doc) => ({id, act, section, title, snippet:
  doc.text.slice(0, 280)}))\<close>, which throws at the first document whose text cannot
  be sliced.\<close>

fun sources_of :: "IndexedDoc list \<Rightarrow> error + SourceSnippet list" where
  "sources_of [] = Inr []"
| "sources_of (doc # docs) =
     (case slice280 (idoc_text doc) of
        Inl e \<Rightarrow> Inl e
      | Inr snippet \<Rightarrow>
          (case sources_of docs of
             Inl e \<Rightarrow> Inl e
           | Inr rest \<Rightarrow>
               Inr (\<lparr>src_id = idoc_id doc, src_act = idoc_act doc,
                     src_section = idoc_section doc, src_title = idoc_title doc,
                     src_snippet = snippet\<rparr> # rest)))"

text \<open>\<open>answer || fallback\<close> for the trimmed content of the completion, which may be
  absent.\<close>

definition answer_or :: "string option \<Rightarrow> string \<Rightarrow> string" where
  "answer_or v d = (case v of None \<Rightarrow> d | Some t \<Rightarrow> if t \<noteq> [] then t else d)"

definition answerLegalQuestion ::
  "'w env \<Rightarrow> string \<Rightarrow> 'w state \<Rightarrow> (error + ChatResult) \<times> 'w state" where
  "answerLegalQuestion env question s =
     (let trimmed = trim question in
      if trimmed = [] then
        (Inl (Error ''Question cannot be empty.''),
         logmsg ragLogger WARN ''Empty question received'' s)
      else
        (let s1 = logmsg ragLogger INFO ''Processing legal question'' s in
         if \<not> pineconeConfigured env then
           (Inr \<lparr>answer = not_configured_message, sources = []\<rparr>,
            logmsg ragLogger ERROR ''Pinecone is not configured - cannot answer question'' s1)
         else
           (case retrieveWithPinecone env trimmed 8 s1 of
              (topDocs, s2) \<Rightarrow>
                if topDocs = [] then
                  (Inr \<lparr>answer = no_match_message, sources = []\<rparr>,
                   logmsg ragLogger WARN ''No matching documents found for question'' s2)
                else
                  (let s3 = logmsg ragLogger INFO
                              (''Retrieved '' @ show_nat (length topDocs)
                                 @ '' relevant documents for context generation'') s2;
                       context = context_of topDocs
                   in case getOpenAIClient env s3 of
                        (Inl e, s4) \<Rightarrow> (Inl e, s4)
                      | (Inr _, s4) \<Rightarrow>
                          (let s5 = logmsg ragLogger DEBUG ''Generating answer with OpenAI'' s4;
                               user = user_message trimmed context
                           in case external (ChatCreate system_prompt user)
                                     (chat_completions_create env system_prompt user) s5 of
                                (Inl e, s6) \<Rightarrow>
                                  (Inl e, logmsg ragLogger ERROR
                                            ''Failed to generate answer with OpenAI'' s6)
                              | (Inr content, s6) \<Rightarrow>
                                  (let s7 = logmsg ragLogger INFO
                                              ''Answer generated successfully'' s6
                                   in case sources_of topDocs of
                                        Inl e \<Rightarrow>
                                          (Inl e, logmsg ragLogger ERROR
                                                    ''Failed to generate answer with OpenAI'' s7)
                                      | Inr srcs \<Rightarrow>
                                          (Inr \<lparr>answer = answer_or (map_option trim content)
                                                           no_answer_message,
                                                sources = srcs\<rparr>,
                                           s7)))))))"


subsection \<open>Ingestion: the three batch loops\<close>

text \<open>\<open>embeddings[idx]\<close>: \<open>undefined\<close> beyond the end of the array.\<close>

definition nth_opt :: "'a list \<Rightarrow> nat \<Rightarrow> 'a option" where
  "nth_opt xs i = (if i < length xs then Some (xs ! i) else None)"

text \<open>\<open>batch.map((doc, idx) => ({id, values: embeddings[idx], metadata:
  {...doc.metadata, text: doc.text.substring(0, limit)}}))\<close>. The spread keeps the keys
  of the metadata in place and \<open>text\<close> replaces or follows them, which is
  \<open>AList.update\<close>.\<close>

definition vectors_of :: "nat \<Rightarrow> UploadedDoc list \<Rightarrow> embedding list \<Rightarrow> vector list" where
  "vectors_of limit batch embeddings =
     map (\<lambda>(doc, idx).
            \<lparr>vec_id = doc_id doc,
             vec_values = nth_opt embeddings idx,
             vec_metadata =
               AList.update ''text'' (JStr (take limit (doc_text doc)))
                 (case doc_metadata doc of None \<Rightarrow> [] | Some md \<Rightarrow> md)\<rparr>)
         (zip batch [0..<length batch])"

text \<open>The two awaited calls at the head of each loop's \<open>try\<close> block: embed the
  texts of the batch, then upsert the vectors built from the answer. \<open>Inl\<close> is the
  error that reaches the \<open>catch\<close>. The three loops differ in \<open>limit\<close> (1000 in the
  route, 2000 in the other two) and in what they log.\<close>

definition embed_and_upsert ::
  "'w env \<Rightarrow> nat \<Rightarrow> UploadedDoc list \<Rightarrow> 'w state \<Rightarrow> (error + unit) \<times> 'w state" where
  "embed_and_upsert env limit batch s =
     (case embedTexts env (map doc_text batch) s of
        (Inl e, s1) \<Rightarrow> (Inl e, s1)
      | (Inr embeddings, s1) \<Rightarrow>
          (let vectors = vectors_of limit batch embeddings
           in external (IndexUpsert vectors) (index_upsert env vectors) s1))"

text \<open>The indexing route's \<open>POST\<close>, lines 210 to 239: the loop over the \<open>chunks\<close>
  array, with its \<open>batchSize = 50\<close>. \<open>POST_index_batch\<close> is the body of the loop
  at index \<open>i\<close>: it gives the outcome of the \<open>try\<close> block (\<open>Inl\<close> the error
  caught), the new \<open>totalIndexed\<close> and the new state. The pause between batches takes
  time and changes nothing else. The result of the loop is \<open>totalIndexed\<close>.\<close>

definition POST_index_batch ::
  "'w env \<Rightarrow> UploadedDoc list \<Rightarrow> nat \<Rightarrow> nat \<Rightarrow> 'w state
     \<Rightarrow> (error + unit) \<times> nat \<times> 'w state" where
  "POST_index_batch env chunks i totalIndexed s =
     (let batch = take 50 (drop i chunks) in
      case embed_and_upsert env 1000 batch s of
        (Inr _, s1) \<Rightarrow>
          (Inr (), totalIndexed + length batch,
           logmsg indexLogger INFO
             (''Indexed '' @ show_nat (totalIndexed + length batch) @ ''/''
                @ show_nat (length chunks) @ '' chunks'') s1)
      | (Inl error, s1) \<Rightarrow>
          (Inl error, totalIndexed,
           logmsg indexLogger ERROR
             (''Failed to index batch starting at '' @ show_nat i) s1))"

function POST_index_loop ::
  "'w env \<Rightarrow> UploadedDoc list \<Rightarrow> nat \<Rightarrow> nat \<Rightarrow> 'w state \<Rightarrow> nat \<times> 'w state" where
  "POST_index_loop env chunks i totalIndexed s =
     (if i < length chunks then
        (case POST_index_batch env chunks i totalIndexed s of
           (outcome, totalIndexed', s') \<Rightarrow> POST_index_loop env chunks (i + 50) totalIndexed' s')
      else (totalIndexed, s))"
  by pat_completeness auto
termination
  by (relation "measure (\<lambda>(env, chunks, i, totalIndexed, s). length chunks - i)") auto

declare POST_index_loop.simps [simp del]

text \<open>\<open>uploadDocumentsToPinecone\<close> of src/lib/upload.ts. \<open>upload_batch\<close> is the body
  of its loop at index \<open>i\<close>: the outcome of the \<open>try\<close> block, the new
  \<open>(uploadedCount, errors)\<close> and the new state.\<close>

record UploadResult =
  uploadedChunks :: nat
  errors :: "string list option"

definition upload_batch ::
  "'w env \<Rightarrow> UploadedDoc list \<Rightarrow> nat \<Rightarrow> nat \<times> string list \<Rightarrow> 'w state
     \<Rightarrow> (error + unit) \<times> (nat \<times> string list) \<times> 'w state" where
  "upload_batch env docs i acc s =
     (let batch = take 50 (drop i docs);
          batchNum = i div 50 + 1;
          s0 = logmsg indexLogger DEBUG
                 (''Processing batch '' @ show_nat batchNum @ '' (''
                    @ show_nat (length batch) @ '' documents)'') s
      in case embed_and_upsert env 2000 batch s0 of
           (Inr _, s1) \<Rightarrow>
             (Inr (), (fst acc + length batch, snd acc),
              logmsg indexLogger INFO
                (''Batch '' @ show_nat batchNum @ '' uploaded successfully'') s1)
         | (Inl error, s1) \<Rightarrow>
             (let errorMsg = ''Failed to upload batch '' @ show_nat batchNum @ '': ''
                               @ String_of error
              in (Inl error, (fst acc, snd acc @ [errorMsg]),
                  logmsg indexLogger ERROR errorMsg s1)))"

function upload_loop ::
  "'w env \<Rightarrow> UploadedDoc list \<Rightarrow> nat \<Rightarrow> nat \<times> string list \<Rightarrow> 'w state
     \<Rightarrow> (nat \<times> string list) \<times> 'w state" where
  "upload_loop env docs i acc s =
     (if i < length docs then
        (case upload_batch env docs i acc s of
           (outcome, acc', s') \<Rightarrow> upload_loop env docs (i + 50) acc' s')
      else (acc, s))"
  by pat_completeness auto
termination
  by (relation "measure (\<lambda>(env, docs, i, acc, s). length docs - i)") auto

declare upload_loop.simps [simp del]

definition uploadDocumentsToPinecone ::
  "'w env \<Rightarrow> UploadedDoc list \<Rightarrow> 'w state \<Rightarrow> (error + UploadResult) \<times> 'w state" where
  "uploadDocumentsToPinecone env docs s =
     (if docs = [] then
        (Inr \<lparr>uploadedChunks = 0, errors = None\<rparr>,
         logmsg indexLogger WARN ''No documents provided for upload'' s)
      else
        (let s1 = logmsg indexLogger INFO
                    (''Starting upload of '' @ show_nat (length docs)
                       @ '' documents to Pinecone'') s
         in case getPineconeIndex env s1 of
              (Inl e, s2) \<Rightarrow> (Inl e, s2)
            | (Inr _, s2) \<Rightarrow>
                (case upload_loop env docs 0 (0, []) s2 of
                   ((uploadedCount, errs), s3) \<Rightarrow>
                     (Inr \<lparr>uploadedChunks = uploadedCount,
                           errors = (if length errs > 0 then Some errs else None)\<rparr>,
                      (if length errs > 0 then
                         logmsg indexLogger WARN
                           (''Upload completed with '' @ show_nat (length errs) @ '' errors'') s3
                       else
                         logmsg indexLogger INFO
                           (''Successfully uploaded all '' @ show_nat uploadedCount
                              @ '' documents'') s3)))))"

text \<open>
  The history of a run, which the source does not keep: the batches that the loop
  attempts, in order, each with its start index \<open>i\<close> and the outcome of its \<open>try\<close>
  block. The claims about failing batches are stated on it.
\<close>

type_synonym history = "(nat \<times> UploadedDoc list \<times> (error + unit)) list"

function POST_index_history ::
  "'w env \<Rightarrow> UploadedDoc list \<Rightarrow> nat \<Rightarrow> nat \<Rightarrow> 'w state \<Rightarrow> history" where
  "POST_index_history env chunks i totalIndexed s =
     (if i < length chunks then
        (case POST_index_batch env chunks i totalIndexed s of
           (outcome, totalIndexed', s') \<Rightarrow>
             (i, take 50 (drop i chunks), outcome)
               # POST_index_history env chunks (i + 50) totalIndexed' s')
      else [])"
  by pat_completeness auto
termination
  by (relation "measure (\<lambda>(env, chunks, i, totalIndexed, s). length chunks - i)") auto

declare POST_index_history.simps [simp del]

function upload_history ::
  "'w env \<Rightarrow> UploadedDoc list \<Rightarrow> nat \<Rightarrow> nat \<times> string list \<Rightarrow> 'w state \<Rightarrow> history" where
  "upload_history env docs i acc s =
     (if i < length docs then
        (case upload_batch env docs i acc s of
           (outcome, acc', s') \<Rightarrow>
             (i, take 50 (drop i docs), outcome) # upload_history env docs (i + 50) acc' s')
      else [])"
  by pat_completeness auto
termination
  by (relation "measure (\<lambda>(env, docs, i, acc, s). length docs - i)") auto

declare upload_history.simps [simp del]

text \<open>The history of the loop in a run of \<open>uploadDocumentsToPinecone env docs s\<close>: the
  loop starts in the state that \<open>getPineconeIndex\<close> leaves.\<close>

definition upload_run_history :: "'w env \<Rightarrow> UploadedDoc list \<Rightarrow> 'w state \<Rightarrow> history" where
  "upload_run_history env docs s =
     upload_history env docs 0 (0, [])
       (snd (getPineconeIndex env
          (logmsg indexLogger INFO
             (''Starting upload of '' @ show_nat (length docs) @ '' documents to Pinecone'') s)))"

text \<open>Of a history: the documents of all attempted batches, in order; the total size
  of the batches whose \<open>try\<close> block succeeded; the failed batches, by start index,
  with the error caught.\<close>

definition attempted :: "history \<Rightarrow> UploadedDoc list" where
  "attempted h = concat (map (\<lambda>(i, batch, outcome). batch) h)"

fun indexed_size :: "history \<Rightarrow> nat" where
  "indexed_size [] = 0"
| "indexed_size ((i, batch, Inr u) # h) = length batch + indexed_size h"
| "indexed_size ((i, batch, Inl e) # h) = indexed_size h"

fun failures :: "history \<Rightarrow> (nat \<times> error) list" where
  "failures [] = []"
| "failures ((i, batch, Inr u) # h) = failures h"
| "failures ((i, batch, Inl e) # h) = (i, e) # failures h"

text \<open>The messages that a logger has logged at level \<open>ERROR\<close>.\<close>

definition error_logs :: "logger \<Rightarrow> 'w state \<Rightarrow> string list" where
  "error_logs lg s =
     map (\<lambda>(lg', lv, msg). msg) (filter (\<lambda>(lg', lv, msg). lg' = lg \<and> lv = ERROR) (logs s))"

text \<open>\<open>indexToPinecone\<close> of src/scripts/index-legal-docs.ts. Its \<open>catch\<close> logs and
  rethrows. \<open>batchSize\<close> is a parameter (default 50); with \<open>batchSize = 0\<close> and a
  non-empty \<open>chunks\<close> the source never leaves the loop, so the loop is a partial
  function, \<open>None\<close> for a run that does not return.\<close>

partial_function (option) indexToPinecone_loop ::
  "'w env \<Rightarrow> UploadedDoc list \<Rightarrow> nat \<Rightarrow> nat \<Rightarrow> nat \<Rightarrow> 'w state
     \<Rightarrow> ((error + nat) \<times> 'w state) option" where
  "indexToPinecone_loop env chunks batchSize i totalIndexed s =
     (if i < length chunks then
        (let batch = take batchSize (drop i chunks);
             s0 = logmsg indexLogger DEBUG
                    (''Generating embeddings for batch '' @ show_nat (i div batchSize + 1)) s
         in case embed_and_upsert env 2000 batch s0 of
              (Inr _, s1) \<Rightarrow>
                indexToPinecone_loop env chunks batchSize (i + batchSize)
                  (totalIndexed + length batch)
                  (logmsg indexLogger INFO
                     (''Indexed '' @ show_nat (totalIndexed + length batch) @ ''/''
                        @ show_nat (length chunks) @ '' chunks'') s1)
            | (Inl error, s1) \<Rightarrow>
                Some (Inl error,
                      logmsg indexLogger ERROR
                        (''Failed to index batch starting at '' @ show_nat i) s1))
      else Some (Inr totalIndexed, s))"

declare indexToPinecone_loop.simps [code]

definition indexToPinecone ::
  "'w env \<Rightarrow> UploadedDoc list \<Rightarrow> nat \<Rightarrow> 'w state \<Rightarrow> ((error + nat) \<times> 'w state) option" where
  "indexToPinecone env chunks batchSize s =
     (case getPineconeIndex env s of
        (Inl e, s1) \<Rightarrow> Some (Inl e, s1)
      | (Inr _, s1) \<Rightarrow>
          indexToPinecone_loop env chunks batchSize 0 0
            (logmsg indexLogger INFO
               (''Starting to index '' @ show_nat (length chunks) @ '' chunks to Pinecone'') s1))"


subsection \<open>The chat route (src/app/api/chat/route.ts) and what it calls\<close>

text \<open>\<open>validateEnvironment\<close> of src/lib/env.ts: the list \<open>errors\<close>; \<open>valid\<close> is
  \<open>errors.length === 0\<close>.\<close>

definition validateEnvironment :: "'w env \<Rightarrow> string list" where
  "validateEnvironment env =
     (case getEnvConfig env of
        Inl (ConfigurationError m) \<Rightarrow> [m]
      | Inl e \<Rightarrow> [''Configuration validation error: '' @ String_of e]
      | Inr _ \<Rightarrow>
          (if OPENAI_API_KEY env = [] then [''OPENAI_API_KEY is not configured'']
           else if \<not> prefix ''sk-'' (OPENAI_API_KEY env) then
             [''OPENAI_API_KEY appears to be invalid (should start with '' @ [CHR 0x22]
                @ ''sk-'' @ [CHR 0x22] @ '')'']
           else [])
          @ (if PINECONE_API_KEY env = [] then [''PINECONE_API_KEY is not configured''] else [])
          @ (if PINECONE_INDEX env = [] then [''PINECONE_INDEX is not configured''] else []))"

record InitStatus =
  indexed :: bool
  indexedNow :: bool
  totalDocs :: nat
  status_pineconeConfigured :: bool
  vectorCount :: nat

definition initLegalIndex :: "'w env \<Rightarrow> 'w state \<Rightarrow> InitStatus \<times> 'w state" where
  "initLegalIndex env s =
     (let result = (\<lambda>ok n. \<lparr>indexed = ok, indexedNow = False, totalDocs = n,
                             status_pineconeConfigured = pineconeConfigured env,
                             vectorCount = n\<rparr>);
          catch = (\<lambda>s'. (result False 0,
                         logmsg ragLogger ERROR ''Failed to read Pinecone index stats'' s'))
      in if pineconeConfigured env then
           (case getPineconeIndex env s of
              (Inl e, s1) \<Rightarrow> catch s1
            | (Inr _, s1) \<Rightarrow>
                (case external IndexStats (index_describeIndexStats env) s1 of
                   (Inl e, s2) \<Rightarrow> catch s2
                 | (Inr totalRecordCount, s2) \<Rightarrow>
                     (result True (case totalRecordCount of None \<Rightarrow> 0 | Some n \<Rightarrow> n),
                      logmsg ragLogger INFO ''Successfully connected to Pinecone index'' s2)))
         else
           (result False 0,
            logmsg ragLogger WARN
              ''Pinecone is not configured - vector search will not be available'' s))"

definition ensureInitialized :: "'w env \<Rightarrow> 'w state \<Rightarrow> (error + unit) \<times> 'w state" where
  "ensureInitialized env s =
     (if \<not> initialized s then
        (let s1 = logmsg apiLogger INFO ''Initializing legal chatbot API'' s in
         if validateEnvironment env \<noteq> [] then
           (Inl (Error ''Environment configuration is invalid''),
            logmsg apiLogger ERROR ''Environment validation failed'' s1)
         else
           (case initLegalIndex env s1 of
              (indexStatus, s2) \<Rightarrow>
                (Inr (), (logmsg apiLogger INFO ''Index initialization complete'' s2)
                           \<lparr>initialized := True\<rparr>)))
      else (Inr (), s))"

text \<open>The JSON responses of the route: the status, and the \<open>ChatResult\<close> or the
  \<open>error\<close> text with the optional \<open>details\<close>.\<close>

datatype response =
    Json200 ChatResult
  | Json400 string
  | Json500 string "string option"

text \<open>\<open>error instanceof Error ? error.message : ...\<close>: every modelled error is an
  \<open>Error\<close>.\<close>

fun message_of :: "error \<Rightarrow> string" where
  "message_of (Error m) = m"
| "message_of (ConfigurationError m) = m"
| "message_of (TypeError m) = m"

text \<open>\<open>POST\<close> of the chat route, from the parsed \<open>question\<close> of the request body
  (\<open>body?.question ?? ""\<close>).\<close>

definition POST_chat :: "'w env \<Rightarrow> string \<Rightarrow> 'w state \<Rightarrow> response \<times> 'w state" where
  "POST_chat env question s =
     (let s0 = logmsg apiLogger INFO ''Received chat request'' s;
          catch = (\<lambda>e s'. (Json500 ''Failed to process your question. Please try again.''
                              (if NODE_ENV env = ''development'' then Some (message_of e)
                               else None),
                           logmsg apiLogger ERROR ''Request failed'' s'))
      in case ensureInitialized env s0 of
           (Inl e, s1) \<Rightarrow> catch e s1
         | (Inr _, s1) \<Rightarrow>
             if question = [] \<or> trim question = [] then
               (Json400 ''Question is required.'',
                logmsg apiLogger WARN ''Invalid request - empty question'' s1)
             else
               (case answerLegalQuestion env question
                       (logmsg apiLogger DEBUG ''Processing question'' s1) of
                  (Inl e, s2) \<Rightarrow> catch e s2
                | (Inr result, s2) \<Rightarrow>
                    (Json200 result,
                     logmsg apiLogger INFO ''Request completed successfully'' s2)))"

section \<open>Assistant response formatter (src/components/Chat.tsx)\<close>

datatype ParsedBlock = Heading string | Paragraph string | ListBlock "string list"

text \<open>The line terminators, which \<open>.\<close> does not match in a regular expression.\<close>

definition is_lt :: "char \<Rightarrow> bool" where
  "is_lt c = (c = LF \<or> c = CR)"

text \<open>
  \<open>lazy_until d s\<close> is the regular expression \<open>.*?\<close> followed by the literal \<open>d\<close>,
  matched at the start of \<open>s\<close>: the shortest run of characters other than line
  terminators after which \<open>d\<close> stands, and what follows \<open>d\<close>.
  \<open>match_emphasis d s\<close> is \<open>d(.+?)d\<close> matched at the start of \<open>s\<close>: the group, and
  what follows the match.
\<close>

fun lazy_until :: "string \<Rightarrow> string \<Rightarrow> (string \<times> string) option" where
  "lazy_until d [] = (if d = [] then Some ([], []) else None)"
| "lazy_until d (c # cs) =
     (if prefix d (c # cs) then Some ([], drop (length d) (c # cs))
      else if is_lt c then None
      else (case lazy_until d cs of
              None \<Rightarrow> None
            | Some (inner, rest) \<Rightarrow> Some (c # inner, rest)))"

definition match_emphasis :: "string \<Rightarrow> string \<Rightarrow> (string \<times> string) option" where
  "match_emphasis d s =
     (if prefix d s then
        (case drop (length d) s of
           [] \<Rightarrow> None
         | c # cs \<Rightarrow>
             if is_lt c then None
             else (case lazy_until d cs of
                     None \<Rightarrow> None
                   | Some (inner, rest) \<Rightarrow> Some (c # inner, rest)))
      else None)"

lemma lazy_until_shorter: "lazy_until d s = Some (inner, rest) \<Longrightarrow> length rest \<le> length s"
  by (induction s arbitrary: inner) (auto split: if_splits option.splits)

lemma match_emphasis_shorter:
  "match_emphasis d s = Some (inner, rest) \<Longrightarrow> length rest < length s"
proof -
  assume m: "match_emphasis d s = Some (inner, rest)"
  then obtain c cs i where d: "drop (length d) s = c # cs" and l: "lazy_until d cs = Some (i, rest)"
    by (auto simp: match_emphasis_def split: if_splits list.splits option.splits)
  from l have "length rest \<le> length cs" by (rule lazy_until_shorter)
  moreover have "length (c # cs) \<le> length s" using d [symmetric] by simp
  ultimately show ?thesis by simp
qed

text \<open>\<open>text.replace(/d(.+?)d/g, "$1")\<close>: at each position from the left, a match is
  replaced by its group and the scan goes on behind it; otherwise the character is
  kept.\<close>

function replace_emphasis :: "string \<Rightarrow> string \<Rightarrow> string" where
  "replace_emphasis d [] = []"
| "replace_emphasis d (c # cs) =
     (case match_emphasis d (c # cs) of
        Some (inner, rest) \<Rightarrow> inner @ replace_emphasis d rest
      | None \<Rightarrow> c # replace_emphasis d cs)"
  by pat_completeness auto
termination
  by (relation "measure (\<lambda>(d, s). length s)") (auto dest: match_emphasis_shorter)

definition stripEmphasis :: "string \<Rightarrow> string" where
  "stripEmphasis text = replace_emphasis ''*'' (replace_emphasis ''**'' text)"

text \<open>\<open>text.split(/\r?\n/)\<close>.\<close>

fun split_lines :: "string \<Rightarrow> string list" where
  "split_lines [] = [[]]"
| "split_lines [c] = (if c = LF then [[], []] else [[c]])"
| "split_lines (c # d # cs) =
     (if c = LF then [] # split_lines (d # cs)
      else if c = CR \<and> d = LF then [] # split_lines cs
      else cons_hd c (split_lines (d # cs)))"

text \<open>\<open>\s+(.*)$\<close> matched at the start of \<open>s\<close>: the group. The white space is
  taken greedily, and the rest must be free of line terminators.\<close>

definition ws_then_rest :: "string \<Rightarrow> string option" where
  "ws_then_rest s =
     (case s of
        [] \<Rightarrow> None
      | c # cs \<Rightarrow>
          if is_ws c then
            (let r = dropWhile is_ws s in if list_ex is_lt r then None else Some r)
          else None)"

text \<open>\<open>line.match(/^(#{1,6})\s+(.*)$/)\<close>: group 2.\<close>

definition headingMatch :: "string \<Rightarrow> string option" where
  "headingMatch line =
     (let n = length (takeWhile (\<lambda>c. c = CHR ''#'') line) in
      if 1 \<le> n \<and> n \<le> 6 then ws_then_rest (drop n line) else None)"

text \<open>\<open>line.match(/^[-*+]\s+(.*)$/)\<close>: group 1.\<close>

definition bulletMatch :: "string \<Rightarrow> string option" where
  "bulletMatch line =
     (case line of
        [] \<Rightarrow> None
      | c # cs \<Rightarrow> if c \<in> {CHR ''-'', CHR ''*'', CHR ''+''} then ws_then_rest cs else None)"

definition is_digit :: "char \<Rightarrow> bool" where
  "is_digit c = (c \<in> set ''0123456789'')"

text \<open>\<open>line.match(/^\d+\.\s+(.*)$/)\<close>: group 1.\<close>

definition orderedMatch :: "string \<Rightarrow> string option" where
  "orderedMatch line =
     (let n = length (takeWhile is_digit line) in
      if 1 \<le> n then
        (case drop n line of
           [] \<Rightarrow> None
         | c # cs \<Rightarrow> if c = CHR ''.'' then ws_then_rest cs else None)
      else None)"

text \<open>The parser state: \<open>blocks\<close>, \<open>currentParagraph\<close> and \<open>currentList\<close>
  (\<open>None\<close> for \<open>null\<close>).\<close>

type_synonym parser_state = "ParsedBlock list \<times> string list \<times> string list option"

fun flushParagraph :: "parser_state \<Rightarrow> parser_state" where
  "flushParagraph (blocks, currentParagraph, currentList) =
     (if currentParagraph \<noteq> [] then
        (blocks @ [Paragraph (join '' '' currentParagraph)], [], currentList)
      else (blocks, currentParagraph, currentList))"

fun flushList :: "parser_state \<Rightarrow> parser_state" where
  "flushList (blocks, currentParagraph, None) = (blocks, currentParagraph, None)"
| "flushList (blocks, currentParagraph, Some items) =
     (if items \<noteq> [] then
        (blocks @ [ListBlock (map stripEmphasis items)], currentParagraph, None)
      else (blocks, currentParagraph, Some items))"

text \<open>The body of \<open>for (const rawLine of lines)\<close>.\<close>

definition parse_line :: "string \<Rightarrow> parser_state \<Rightarrow> parser_state" where
  "parse_line rawLine st =
     (let line = trim rawLine in
      if line = [] then flushList (flushParagraph st)
      else
        (case headingMatch line of
           Some g \<Rightarrow>
             (case flushList (flushParagraph st) of
                (blocks, currentParagraph, currentList) \<Rightarrow>
                  (let headingText = stripEmphasis (trim g) in
                   if headingText \<noteq> [] then
                     (blocks @ [Heading headingText], currentParagraph, currentList)
                   else (blocks, currentParagraph, currentList)))
         | None \<Rightarrow>
             (case (case bulletMatch line of Some g \<Rightarrow> Some g | None \<Rightarrow> orderedMatch line) of
                Some g \<Rightarrow>
                  (case flushParagraph st of
                     (blocks, currentParagraph, currentList) \<Rightarrow>
                       (blocks, currentParagraph,
                        Some ((case currentList of None \<Rightarrow> [] | Some items \<Rightarrow> items)
                                @ [trim g])))
              | None \<Rightarrow>
                  (case st of
                     (blocks, currentParagraph, Some items) \<Rightarrow>
                       (blocks, currentParagraph,
                        Some (if items = [] then items
                              else butlast items @ [last items @ '' '' @ line]))
                   | (blocks, currentParagraph, None) \<Rightarrow>
                       (blocks, currentParagraph @ [line], None)))))"

definition parseAssistantContent :: "string \<Rightarrow> ParsedBlock list" where
  "parseAssistantContent text =
     fst (flushList (flushParagraph
            (foldl (\<lambda>st rawLine. parse_line rawLine st) ([], [], None) (split_lines text))))"


section \<open>Example inputs\<close>

definition sec378 :: LegalSection where
  "sec378 = \<lparr>sec_id = ''ipc_378'', sec_act = ''IPC'', sec_section = ''378'',
       sec_title = ''Theft'',
       sec_description = ''Whoever, intending to take dishonestly any moveable property'',
       sec_text = None\<rparr>"

definition sec1 :: LegalSection where
  "sec1 = \<lparr>sec_id = ''ipc_1'', sec_act = ''IPC'', sec_section = ''1'', sec_title = ''T'',
       sec_description = ''abc'' @ [LF] @ '' defgh'', sec_text = None\<rparr>"

text \<open>A match with the metadata of section 378, and services that answer every call:
  the index with the given matches, the completion service with a fixed text. The
  world is not used.\<close>

definition match378 :: match where
  "match378 =
     \<lparr>match_id = ''ipc_378'', match_score = None,
      match_metadata =
        Some [(''act'', JStr ''IPC''), (''section'', JStr ''378''), (''title'', JStr ''Theft''),
              (''text'', JStr ''Whoever, intending to take dishonestly...'')]\<rparr>"

text \<open>A match whose metadata holds a number under \<open>text\<close>.\<close>

definition match_numeric_text :: match where
  "match_numeric_text =
     \<lparr>match_id = ''m1'', match_score = None, match_metadata = Some [(''text'', JNum 5)]\<rparr>"

text \<open>A match without a usable text: a zero under \<open>text\<close>, an empty \<open>content\<close>.\<close>

definition match_unusable :: match where
  "match_unusable =
     \<lparr>match_id = ''m0'', match_score = None,
      match_metadata = Some [(''text'', JNum 0), (''content'', JStr [])]\<rparr>"

definition mock_env :: "match list \<Rightarrow> unit env" where
  "mock_env matches =
     \<lparr>OPENAI_API_KEY = ''sk-test'', PINECONE_API_KEY = ''pc-test'', PINECONE_INDEX = ''legal'',
      NODE_ENV = ''test'', new_OpenAI = Inr (), new_Pinecone = Inr (),
      embeddings_create = (\<lambda>texts w. (Inr (map (\<lambda>t. [0]) texts), w)),
      index_query = (\<lambda>v k w. (Inr (take k matches), w)),
      index_upsert = (\<lambda>vectors w. (Inr (), w)),
      index_describeIndexStats = (\<lambda>w. (Inr (Some 0), w)),
      chat_completions_create = (\<lambda>sys user w. (Inr (Some ''Theft is defined in IPC 378.''), w))\<rparr>"

text \<open>Services whose embedding call fails the second time it is made, and only then;
  the world counts the embedding calls.\<close>

definition flaky_env :: "nat env" where
  "flaky_env =
     \<lparr>OPENAI_API_KEY = ''sk-test'', PINECONE_API_KEY = ''pc-test'', PINECONE_INDEX = ''legal'',
      NODE_ENV = ''test'', new_OpenAI = Inr (), new_Pinecone = Inr (),
      embeddings_create =
        (\<lambda>texts w. (if w = 1 then Inl (Error ''rate limit'') else Inr (map (\<lambda>t. [0]) texts),
                     w + 1)),
      index_query = (\<lambda>v k w. (Inr [], w)),
      index_upsert = (\<lambda>vectors w. (Inr (), w)),
      index_describeIndexStats = (\<lambda>w. (Inr (Some 0), w)),
      chat_completions_create = (\<lambda>sys user w. (Inr None, w))\<rparr>"

text \<open>A fresh process: nothing called, nothing logged, no client, not initialized.\<close>

definition fresh :: "'w \<Rightarrow> 'w state" where
  "fresh w = \<lparr>world = w, calls = [], logs = [], openai_client = False,
              pinecone_client = False, initialized = False\<rparr>"

text \<open>\<open>n\<close> documents to index.\<close>

definition docs_n :: "nat \<Rightarrow> UploadedDoc list" where
  "docs_n n = map (\<lambda>k. \<lparr>doc_id = ''doc_'' @ show_nat k, doc_text = ''text'',
                           doc_metadata = None\<rparr>) [0..<n]"

section \<open>Facts about the state\<close>

text \<open>Logging changes the log and nothing else.\<close>

lemma logmsg_keeps [simp]:
  "calls (logmsg lg lv msg s) = calls s"
  "world (logmsg lg lv msg s) = world s"
  "openai_client (logmsg lg lv msg s) = openai_client s"
  "pinecone_client (logmsg lg lv msg s) = pinecone_client s"
  "initialized (logmsg lg lv msg s) = initialized s"
  by (simp_all add: logmsg_def)

section \<open>Facts about strings\<close>

lemma length_trim_le: "length (trim s) \<le> length s"
proof -
  have "length (trim s) \<le> length (dropWhile is_ws s)"
    unfolding trim_def using length_dropWhile_le [of is_ws "rev (dropWhile is_ws s)"] by simp
  also have "\<dots> \<le> length s" by (rule length_dropWhile_le)
  finally show ?thesis .
qed

lemma non_ws_dropWhile: "non_ws (dropWhile is_ws s) = non_ws s"
  by (induction s) (simp_all add: non_ws_def)

lemma non_ws_rev: "non_ws (rev s) = rev (non_ws s)"
  by (simp add: non_ws_def rev_filter)

lemma non_ws_trim: "non_ws (trim s) = non_ws s"
  by (simp add: trim_def non_ws_rev non_ws_dropWhile)

lemma non_ws_append: "non_ws (a @ b) = non_ws a @ non_ws b"
  by (simp add: non_ws_def)

lemma trim_hd_not_ws: "trim s \<noteq> [] \<Longrightarrow> \<not> is_ws (hd (trim s))"
proof -
  assume ne: "trim s \<noteq> []"
  let ?d = "dropWhile is_ws s"
  let ?r = "dropWhile is_ws (rev ?d)"
  from ne have r_ne: "?r \<noteq> []" by (simp add: trim_def)
  have d_ne: "?d \<noteq> []"
  proof
    assume "?d = []"
    then have "?r = []" by (simp only: rev.simps dropWhile.simps)
    with r_ne show False ..
  qed
  have "?d = rev ?r @ rev (takeWhile is_ws (rev ?d))"
    by (metis rev_append rev_rev_ident takeWhile_dropWhile_id)
  with r_ne have "hd (rev ?r) = hd ?d"
    by (metis hd_append2 rev_is_Nil_conv)
  moreover have "\<not> is_ws (hd ?d)" using d_ne by (rule hd_dropWhile)
  ultimately show ?thesis by (simp add: trim_def)
qed

lemma trim_last_not_ws: "trim s \<noteq> [] \<Longrightarrow> \<not> is_ws (last (trim s))"
proof -
  assume ne: "trim s \<noteq> []"
  let ?r = "dropWhile is_ws (rev (dropWhile is_ws s))"
  from ne have r_ne: "?r \<noteq> []" by (simp add: trim_def)
  then have "\<not> is_ws (hd ?r)" by (rule hd_dropWhile)
  with r_ne show ?thesis by (simp add: trim_def last_rev)
qed

lemma dropWhile_id_hd: "s \<noteq> [] \<Longrightarrow> \<not> P (hd s) \<Longrightarrow> dropWhile P s = s"
  by (cases s) simp_all

lemma trim_id: "s \<noteq> [] \<Longrightarrow> \<not> is_ws (hd s) \<Longrightarrow> \<not> is_ws (last s) \<Longrightarrow> trim s = s"
  by (simp add: trim_def dropWhile_id_hd hd_rev)

lemma trim_trim: "trim (trim s) = trim s"
proof (cases "trim s = []")
  case True
  moreover have "trim [] = []" by (simp add: trim_def)
  ultimately show ?thesis by (simp only:)
next
  case False
  then show ?thesis by (simp add: trim_id trim_hd_not_ws trim_last_not_ws)
qed

section \<open>The fixed-window chunker\<close>

lemma slice_split:
  "a \<le> b \<Longrightarrow> b \<le> length s \<Longrightarrow> drop a s = slice s a b @ drop b s"
proof -
  assume ab: "a \<le> b" and bl: "b \<le> length s"
  have "drop a s = take (b - a) (drop a s) @ drop (b - a) (drop a s)"
    by (rule append_take_drop_id [symmetric])
  moreover have "drop (b - a) (drop a s) = drop b s" using ab by simp
  moreover have "slice s a b = take (b - a) (drop a s)" using bl by (simp add: slice_def)
  ultimately show ?thesis by simp
qed

lemma length_slice_le: "length (slice s a b) \<le> b - a"
  by (simp add: slice_def)

text \<open>The loop started at \<open>start\<close> with \<open>acc\<close> returns, and what it adds to \<open>acc\<close>
  is bounded, non-empty after trimming, and carries the non-whitespace characters of
  the text from \<open>start\<close> on.\<close>

lemma chunkText_loop_correct:
  assumes M: "0 < M"
  shows "start \<le> length T \<Longrightarrow>
    \<exists>cs. chunkText_loop T M start acc = Some (acc @ cs) \<and>
         (\<forall>c\<in>set cs. length c \<le> M \<and> trim c \<noteq> []) \<and>
         non_ws (concat cs) = non_ws (drop start T)"
proof (induction "length T - start" arbitrary: start acc rule: less_induct)
  case less
  show ?case
  proof (cases "start < length T")
    case False
    with less.prems have "start = length T" by simp
    then have "chunkText_loop T M start acc = Some (acc @ [])"
      by (subst chunkText_loop.simps) simp
    moreover have "non_ws (concat []) = non_ws (drop start T)"
      using \<open>start = length T\<close> by (simp add: non_ws_def)
    ultimately show ?thesis by fastforce
  next
    case True
    define e where "e = min (start + M) (length T)"
    define chunk where "chunk = trim (slice T start e)"
    define acc' where "acc' = (if chunk \<noteq> [] then acc @ [chunk] else acc)"
    have e_gt: "start < e" and e_le: "e \<le> length T" and e_M: "e - start \<le> M"
      using True M by (simp_all add: e_def)
    have step: "chunkText_loop T M start acc = chunkText_loop T M e acc'"
      using True by (subst chunkText_loop.simps) (simp add: e_def chunk_def acc'_def Let_def)
    have "length T - e < length T - start" using e_gt e_le by simp
    from less.hyps [OF this e_le, of acc'] obtain cs where
      cs: "chunkText_loop T M e acc' = Some (acc' @ cs)"
          "\<forall>c\<in>set cs. length c \<le> M \<and> trim c \<noteq> []"
          "non_ws (concat cs) = non_ws (drop e T)"
      by blast
    have len: "length chunk \<le> M"
      using length_trim_le [of "slice T start e"] length_slice_le [of T start e] e_M
      by (simp add: chunk_def)
    have nws: "non_ws (drop start T) = non_ws chunk @ non_ws (drop e T)"
      using slice_split [of start e T] e_gt e_le
      by (simp add: chunk_def non_ws_trim non_ws_append)
    show ?thesis
    proof (cases "chunk = []")
      case True
      then have "acc' = acc" by (simp add: acc'_def)
      moreover have "non_ws chunk = []" using True by (simp add: non_ws_def)
      ultimately show ?thesis using step cs nws by auto
    next
      case False
      then have a: "acc' @ cs = acc @ (chunk # cs)" by (simp add: acc'_def)
      have "trim chunk \<noteq> []" using False by (simp add: chunk_def trim_trim)
      with len cs(2) have "\<forall>c\<in>set (chunk # cs). length c \<le> M \<and> trim c \<noteq> []" by simp
      moreover have "non_ws (concat (chunk # cs)) = non_ws (drop start T)"
        using nws cs(3) by (simp add: non_ws_append)
      ultimately show ?thesis using step cs(1) a by metis
    qed
  qed
qed

text \<open>
  Claim C1. For every text \<open>T\<close> and every \<open>maxChars = M > 0\<close>, \<open>chunkText(T, M)\<close>
  returns; every chunk it returns has length at most \<open>M\<close>; no chunk is empty after
  trimming; and the concatenation of the chunks, in order, has exactly the
  non-whitespace characters of \<open>T\<close>, in their order.
\<close>

theorem chunkText_bounded_nonempty_preserving:
  assumes "0 < M"
  shows "\<exists>cs. chunkText T M = Some cs \<and>
              (\<forall>c\<in>set cs. length c \<le> M \<and> trim c \<noteq> []) \<and>
              non_ws (concat cs) = non_ws T"
  using chunkText_loop_correct [OF assms, of 0 T "[]"] by (simp add: chunkText_def)

theorem chunkText_bounded_nonempty_preserving_witness:
  "(0::nat) < 5 \<and>
   (\<exists>cs. chunkText ''  hello world  foo '' 5 = Some cs \<and>
         (\<forall>c\<in>set cs. length c \<le> 5 \<and> trim c \<noteq> []) \<and>
         non_ws (concat cs) = non_ws ''  hello world  foo '')"
  using chunkText_bounded_nonempty_preserving [of 5 "''  hello world  foo ''"] by simp


section \<open>The word-aware chunker\<close>

lemma trim_Nil: "trim [] = []"
  by (simp add: trim_def)

lemma trim_nonempty_iff: "trim s \<noteq> [] \<longleftrightarrow> (\<exists>c\<in>set s. \<not> is_ws c)"
proof
  assume "trim s \<noteq> []"
  then have "\<not> is_ws (hd (trim s))" by (rule trim_hd_not_ws)
  with \<open>trim s \<noteq> []\<close> have "hd (trim s) \<in> set (non_ws (trim s))"
    by (simp add: non_ws_def)
  then have "hd (trim s) \<in> set (non_ws s)" by (simp add: non_ws_trim)
  then show "\<exists>c\<in>set s. \<not> is_ws c" by (auto simp: non_ws_def)
next
  assume "\<exists>c\<in>set s. \<not> is_ws c"
  then have "non_ws s \<noteq> []" by (auto simp: non_ws_def filter_empty_conv)
  then have "non_ws (trim s) \<noteq> []" by (simp add: non_ws_trim)
  then show "trim s \<noteq> []" by (auto simp: non_ws_def)
qed

lemma trim_space_Cons: "trim (CHR '' '' # s) = trim s"
  by (simp add: trim_def is_ws_def)

subsection \<open>Splitting and joining\<close>

lemma split_on_nonempty: "split_on sep s \<noteq> []"
  by (induction s) (auto simp: neq_Nil_conv elim: cons_hd.elims)

lemma join_Cons: "join sep (w # ws) = (if ws = [] then w else w @ sep @ join sep ws)"
  by (cases ws) simp_all

lemma join_cons_hd: "ws \<noteq> [] \<Longrightarrow> join sep (cons_hd c ws) = c # join sep ws"
  by (cases ws) (simp_all add: join_Cons)

lemma join_split_on: "join [sep] (split_on sep s) = s"
  by (induction s) (simp_all add: join_Cons join_cons_hd split_on_nonempty)

lemma join_snoc: "h \<noteq> [] \<Longrightarrow> join sep (h @ [w]) = join sep h @ sep @ w"
  by (induction h) (simp_all add: join_Cons)

subsection \<open>Chunk lengths\<close>

lemma word_loop_flush:
  "length (cur @ '' '' @ w) > M \<and> length cur > 0 \<Longrightarrow>
   word_loop sec M (w # ws) (cur, idx, chunks) =
   word_loop sec M ws (w, idx + 1, chunks @ [indexed_chunk sec idx cur])"
  by simp

lemma word_loop_extend:
  "\<not> (length (cur @ '' '' @ w) > M \<and> length cur > 0) \<Longrightarrow>
   word_loop sec M (w # ws) (cur, idx, chunks) =
   word_loop sec M ws (cur @ (if cur \<noteq> [] then '' '' else []) @ w, idx, chunks)"
  by auto

text \<open>The invariant of the word loop: \<open>currentChunk\<close> fits in \<open>chunkSize\<close> or
  is one word of the text; a pushed chunk fits or is one over-long word, trimmed.\<close>

lemma word_loop_lengths:
  assumes "length cur \<le> M \<or> cur \<in> W"
    and "set ws \<subseteq> W"
    and "\<forall>c\<in>set chunks. length (doc_text c) \<le> M \<or> (\<exists>w\<in>W. M < length w \<and> doc_text c = trim w)"
    and "word_loop sec M ws (cur, idx, chunks) = (cur', idx', chunks')"
  shows "(length cur' \<le> M \<or> cur' \<in> W) \<and>
         (\<forall>c\<in>set chunks'. length (doc_text c) \<le> M \<or>
                           (\<exists>w\<in>W. M < length w \<and> doc_text c = trim w))"
  using assms
proof (induction ws arbitrary: cur idx chunks)
  case Nil
  then show ?case by simp
next
  case (Cons w ws)
  let ?P = "\<lambda>c. length (doc_text c) \<le> M \<or> (\<exists>w\<in>W. M < length w \<and> doc_text c = trim w)"
  show ?case
  proof (cases "length (cur @ '' '' @ w) > M \<and> length cur > 0")
    case True
    have "?P (indexed_chunk sec idx cur)"
    proof (cases "length cur \<le> M")
      case True
      then show ?thesis
        using length_trim_le [of cur] by (simp add: indexed_chunk_def)
    next
      case False
      with Cons.prems(1) have "cur \<in> W" by simp
      with False show ?thesis
        by (intro disjI2 bexI [of _ cur]) (simp_all add: indexed_chunk_def)
    qed
    with Cons.prems(3) have inv: "\<forall>c\<in>set (chunks @ [indexed_chunk sec idx cur]). ?P c"
      by simp
    have next_cur: "length w \<le> M \<or> w \<in> W" using Cons.prems(2) by simp
    have run: "word_loop sec M ws (w, idx + 1, chunks @ [indexed_chunk sec idx cur])
                 = (cur', idx', chunks')"
      using Cons.prems(4) word_loop_flush [OF True] by simp
    from Cons.IH [OF next_cur _ inv run] Cons.prems(2) show ?thesis by simp
  next
    case False
    let ?cur = "cur @ (if cur \<noteq> [] then '' '' else []) @ w"
    have next_cur: "length ?cur \<le> M \<or> ?cur \<in> W"
    proof (cases "cur = []")
      case True
      then show ?thesis using Cons.prems(2) by simp
    next
      case False
      with \<open>\<not> (length (cur @ '' '' @ w) > M \<and> length cur > 0)\<close> show ?thesis by simp
    qed
    have run: "word_loop sec M ws (?cur, idx, chunks) = (cur', idx', chunks')"
      using Cons.prems(4) word_loop_extend [OF False] by simp
    from Cons.IH [OF next_cur _ Cons.prems(3) run] Cons.prems(2) show ?thesis by simp
  qed
qed

lemma section_chunks_lengths:
  assumes "c \<in> set (section_chunks sec M fullText)"
  shows "length (doc_text c) \<le> M \<or>
         (\<exists>w\<in>set (split_on CHR '' '' fullText). M < length w \<and> doc_text c = trim w)"
proof (cases "length fullText \<le> M")
  case True
  with assms show ?thesis by (simp add: section_chunks_def)
next
  case False
  let ?W = "set (split_on CHR '' '' fullText)"
  obtain cur idx chunks where
    run: "word_loop sec M (split_on CHR '' '' fullText) ([], 0, []) = (cur, idx, chunks)"
    by (metis prod_cases3)
  have inv: "(length cur \<le> M \<or> cur \<in> ?W) \<and>
             (\<forall>c\<in>set chunks. length (doc_text c) \<le> M \<or>
                              (\<exists>w\<in>?W. M < length w \<and> doc_text c = trim w))"
    by (rule word_loop_lengths [OF _ _ _ run]) simp_all
  have last_ok: "length (doc_text (indexed_chunk sec idx cur)) \<le> M \<or>
             (\<exists>w\<in>?W. M < length w \<and> doc_text (indexed_chunk sec idx cur) = trim w)"
  proof (cases "length cur \<le> M")
    case True
    then show ?thesis using length_trim_le [of cur] by (simp add: indexed_chunk_def)
  next
    case False
    with inv have "cur \<in> ?W" by simp
    with False show ?thesis
      by (intro disjI2 bexI [of _ cur]) (simp_all add: indexed_chunk_def)
  qed
  from assms False run have "c \<in> set chunks \<or> c = indexed_chunk sec idx cur"
    by (auto simp: section_chunks_def split: if_splits)
  with inv last_ok show ?thesis by blast
qed


text \<open>
  Claim C4, as amended. Every chunk of the word-aware chunkers, the route's
  \<open>chunkAndPrepareDocuments\<close> and the script's \<open>chunkLegalSections\<close>, has length
  at most \<open>chunkSize = M\<close>, unless it is a single word of the section's text (a piece
  of the split at spaces) that is itself longer than \<open>M\<close>: the loop never cuts a
  word, so such a word is pushed whole, trimmed, as a chunk of its own.
\<close>

theorem word_chunks_bounded_unless_long_word:
  "(\<forall>c\<in>set (chunkAndPrepareDocuments sections M).
      length (doc_text c) \<le> M \<or>
      (\<exists>s\<in>set sections. \<exists>w\<in>set (split_on CHR '' '' (trim (fullText_of s))).
         M < length w \<and> doc_text c = trim w)) \<and>
   (\<forall>c\<in>set (chunkLegalSections sections M).
      length (doc_text c) \<le> M \<or>
      (\<exists>s\<in>set sections. \<exists>w\<in>set (split_on CHR '' '' (fullText_of s)).
         M < length w \<and> doc_text c = trim w))"
proof (intro conjI ballI)
  fix c assume "c \<in> set (chunkAndPrepareDocuments sections M)"
  then obtain s where "s \<in> set sections"
    and "c \<in> set (section_chunks s M (trim (fullText_of s)))"
    by (auto simp: chunkAndPrepareDocuments_def)
  then show "length (doc_text c) \<le> M \<or>
      (\<exists>s\<in>set sections. \<exists>w\<in>set (split_on CHR '' '' (trim (fullText_of s))).
         M < length w \<and> doc_text c = trim w)"
    using section_chunks_lengths [of c s M "trim (fullText_of s)"] by blast
next
  fix c assume "c \<in> set (chunkLegalSections sections M)"
  then obtain s where "s \<in> set sections"
    and "c \<in> set (section_chunks s M (fullText_of s))"
    by (auto simp: chunkLegalSections_def)
  then show "length (doc_text c) \<le> M \<or>
      (\<exists>s\<in>set sections. \<exists>w\<in>set (split_on CHR '' '' (fullText_of s)).
         M < length w \<and> doc_text c = trim w)"
    using section_chunks_lengths [of c s M "fullText_of s"] by blast
qed

theorem word_chunks_bounded_unless_long_word_witness:
  "indexed_chunk sec378 6 ''dishonestly'' \<in> set (chunkAndPrepareDocuments [sec378] 10) \<and>
   indexed_chunk sec378 6 ''dishonestly'' \<in> set (chunkLegalSections [sec378] 10) \<and>
   (length (doc_text (indexed_chunk sec378 6 ''dishonestly'')) \<le> 10 \<or>
    (\<exists>s\<in>set [sec378]. \<exists>w\<in>set (split_on CHR '' '' (trim (fullText_of s))).
       10 < length w \<and> doc_text (indexed_chunk sec378 6 ''dishonestly'') = trim w)) \<and>
   (length (doc_text (indexed_chunk sec378 6 ''dishonestly'')) \<le> 10 \<or>
    (\<exists>s\<in>set [sec378]. \<exists>w\<in>set (split_on CHR '' '' (fullText_of s)).
       10 < length w \<and> doc_text (indexed_chunk sec378 6 ''dishonestly'') = trim w))"
proof -
  have route: "indexed_chunk sec378 6 ''dishonestly'' \<in> set (chunkAndPrepareDocuments [sec378] 10)"
    by code_simp
  have script: "indexed_chunk sec378 6 ''dishonestly'' \<in> set (chunkLegalSections [sec378] 10)"
    by code_simp
  from route script word_chunks_bounded_unless_long_word [of "[sec378]" 10]
  show ?thesis by blast
qed

text \<open>Claim C4 as stated fails: with \<open>chunkSize = 10\<close> the word \<open>dishonestly\<close>, of
  eleven characters, is a chunk.\<close>

theorem word_chunk_over_budget_counterexample:
  "(0::nat) < 10 \<and>
   \<not> (\<forall>c\<in>set (chunkAndPrepareDocuments [sec378] 10). length (doc_text c) \<le> 10)"
  by code_simp

subsection \<open>Chunks are runs of whole words\<close>

lemma join_dropWhile_Nil_iff:
  "join sep (dropWhile (\<lambda>w. w = []) g) = [] \<longleftrightarrow> dropWhile (\<lambda>w. w = []) g = []"
proof (cases "dropWhile (\<lambda>w. w = []) g")
  case Nil
  then show ?thesis by (simp only: join.simps refl)
next
  case (Cons w ws)
  then have "w \<noteq> []" using hd_dropWhile [of "\<lambda>w. w = []" g] by auto
  with Cons show ?thesis by (simp add: join_Cons)
qed

lemma join_dropWhile_snoc:
  "join sep (dropWhile (\<lambda>w. w = []) (g @ [w])) =
   join sep (dropWhile (\<lambda>w. w = []) g)
     @ (if join sep (dropWhile (\<lambda>w. w = []) g) \<noteq> [] then sep else []) @ w"
proof (cases "dropWhile (\<lambda>w. w = []) g = []")
  case True
  then have "\<forall>x\<in>set g. x = []" by (simp add: dropWhile_eq_Nil_conv)
  then have E: "dropWhile (\<lambda>w. w = []) (g @ [w]) = (if w = [] then [] else [w])"
    by (simp add: dropWhile_append)
  show ?thesis unfolding True by (simp add: E)
next
  case False
  then have "dropWhile (\<lambda>w. w = []) (g @ [w]) = dropWhile (\<lambda>w. w = []) g @ [w]"
    by (auto simp: dropWhile_append dropWhile_eq_Nil_conv)
  with False show ?thesis by (simp add: join_snoc join_dropWhile_Nil_iff)
qed

lemma trim_join_dropWhile:
  "trim (join '' '' (dropWhile (\<lambda>w. w = []) g)) = trim (join '' '' g)"
proof (induction g)
  case Nil
  then show ?case by simp
next
  case (Cons w g)
  show ?case
  proof (cases "w = []")
    case True
    then show ?thesis using Cons.IH by (simp add: join_Cons trim_space_Cons trim_Nil)
  next
    case False
    then show ?thesis by simp
  qed
qed

text \<open>The word loop, started with a pending run \<open>g\<close> of words that
  \<open>currentChunk\<close> joins, cuts \<open>g @ ws\<close> into the runs \<open>gs\<close>, one pushed chunk each,
  and the pending run \<open>g'\<close>.\<close>

lemma word_loop_runs:
  assumes "word_loop sec M ws (cur, idx, chunks) = (cur', idx', chunks')"
    and "cur = join '' '' (dropWhile (\<lambda>w. w = []) g)"
  shows "\<exists>gs g'. g @ ws = concat gs @ g' \<and> [] \<notin> set gs \<and> (g \<noteq> [] \<or> ws \<noteq> [] \<longrightarrow> g' \<noteq> []) \<and>
           cur' = join '' '' (dropWhile (\<lambda>w. w = []) g') \<and>
           map doc_text chunks' = map doc_text chunks @ map (\<lambda>g. trim (join '' '' g)) gs"
  using assms
proof (induction ws arbitrary: cur idx chunks g)
  case Nil
  then have "g @ [] = concat [] @ g \<and> [] \<notin> set ([] :: string list list) \<and>
      (g \<noteq> [] \<or> ([] :: string list) \<noteq> [] \<longrightarrow> g \<noteq> []) \<and>
      cur' = join '' '' (dropWhile (\<lambda>w. w = []) g) \<and>
      map doc_text chunks' = map doc_text chunks @ map (\<lambda>g. trim (join '' '' g)) []"
    by simp
  then show ?case by blast
next
  case (Cons w ws)
  show ?case
  proof (cases "length (cur @ '' '' @ w) > M \<and> length cur > 0")
    case True
    then have g_ne: "g \<noteq> []" using Cons.prems(2) by auto
    have run: "word_loop sec M ws (w, idx + 1, chunks @ [indexed_chunk sec idx cur])
                 = (cur', idx', chunks')"
      using Cons.prems(1) word_loop_flush [OF True] by simp
    have w_eq: "w = join '' '' (dropWhile (\<lambda>w. w = []) [w])" by simp
    from Cons.IH [OF run w_eq] obtain gs g' where
      r: "[w] @ ws = concat gs @ g'" "[] \<notin> set gs" "g' \<noteq> []"
         "cur' = join '' '' (dropWhile (\<lambda>w. w = []) g')"
         "map doc_text chunks' = map doc_text (chunks @ [indexed_chunk sec idx cur])
            @ map (\<lambda>g. trim (join '' '' g)) gs"
      by auto
    have pushed: "doc_text (indexed_chunk sec idx cur) = trim (join '' '' g)"
      using Cons.prems(2) by (simp add: indexed_chunk_def trim_join_dropWhile)
    have "g @ w # ws = concat (g # gs) @ g'" using r(1) by simp
    moreover have "[] \<notin> set (g # gs)" using r(2) g_ne by simp
    moreover have "map doc_text chunks' =
        map doc_text chunks @ map (\<lambda>g. trim (join '' '' g)) (g # gs)"
      using r(5) pushed by simp
    ultimately show ?thesis using r(3,4) by blast
  next
    case False
    have run: "word_loop sec M ws (cur @ (if cur \<noteq> [] then '' '' else []) @ w, idx, chunks)
                 = (cur', idx', chunks')"
      using Cons.prems(1) word_loop_extend [OF False] by simp
    have ext: "cur @ (if cur \<noteq> [] then '' '' else []) @ w =
               join '' '' (dropWhile (\<lambda>w. w = []) (g @ [w]))"
      using Cons.prems(2) by (simp only: join_dropWhile_snoc)
    from Cons.IH [OF run ext] obtain gs g' where
      r: "(g @ [w]) @ ws = concat gs @ g'" "[] \<notin> set gs" "g' \<noteq> []"
         "cur' = join '' '' (dropWhile (\<lambda>w. w = []) g')"
         "map doc_text chunks' = map doc_text chunks @ map (\<lambda>g. trim (join '' '' g)) gs"
      by auto
    from r(1) have "g @ w # ws = concat gs @ g'" by simp
    with r(2-5) show ?thesis by blast
  qed
qed

lemma last_split_on:
  "s \<noteq> [] \<Longrightarrow> last s \<noteq> sep \<Longrightarrow>
   last (split_on sep s) \<noteq> [] \<and> last (last (split_on sep s)) = last s"
proof (induction s)
  case Nil
  then show ?case by simp
next
  case (Cons c s)
  show ?case
  proof (cases "s = []")
    case True
    with Cons.prems show ?thesis by simp
  next
    case False
    with Cons.prems have IH: "last (split_on sep s) \<noteq> [] \<and> last (last (split_on sep s)) = last s"
      using Cons.IH by simp
    obtain w ws where sp: "split_on sep s = w # ws"
      using split_on_nonempty [of sep s] by (auto simp: neq_Nil_conv)
    show ?thesis
    proof (cases "ws = []")
      case True
      with IH sp False show ?thesis by auto
    next
      case nonempty: False
      with IH sp False show ?thesis by auto
    qed
  qed
qed

lemma mem_dropWhile: "x \<in> set g \<Longrightarrow> \<not> P x \<Longrightarrow> x \<in> set (dropWhile P g)"
  by (induction g) auto

lemma set_join: "w \<in> set h \<Longrightarrow> set w \<subseteq> set (join sep h)"
  by (induction h) (auto simp: join_Cons)

text \<open>In the indexing route the text is trimmed before it is split, so the last
  pending run always holds a visible character and is pushed.\<close>

lemma section_chunks_runs:
  "\<exists>gs. concat gs = split_on CHR '' '' (trim raw) \<and> [] \<notin> set gs \<and>
        map doc_text (section_chunks sec M (trim raw)) = map (\<lambda>g. trim (join '' '' g)) gs"
proof (cases "length (trim raw) \<le> M")
  case True
  let ?ws = "split_on CHR '' '' (trim raw)"
  have "trim (join '' '' ?ws) = trim raw"
    using join_split_on [of "CHR '' ''" "trim raw"] by (simp add: trim_trim)
  then have "map doc_text (section_chunks sec M (trim raw)) = map (\<lambda>g. trim (join '' '' g)) [?ws]"
    using True by (simp add: section_chunks_def)
  moreover have "concat [?ws] = ?ws" by simp
  moreover have "[] \<notin> set [?ws]" using split_on_nonempty [of "CHR '' ''" "trim raw"] by simp
  ultimately show ?thesis by blast
next
  case False
  let ?ft = "trim raw"
  let ?ws = "split_on CHR '' '' ?ft"
  from False have ft_ne: "?ft \<noteq> []" by auto
  obtain cur idx chunks where run: "word_loop sec M ?ws ([], 0, []) = (cur, idx, chunks)"
    by (metis prod_cases3)
  have start: "[] = join '' '' (dropWhile (\<lambda>w. w = []) [])" by simp
  from word_loop_runs [OF run start] obtain gs g' where
    r: "?ws = concat gs @ g'" "[] \<notin> set gs" "g' \<noteq> []"
       "cur = join '' '' (dropWhile (\<lambda>w. w = []) g')"
       "map doc_text chunks = map (\<lambda>g. trim (join '' '' g)) gs"
    using split_on_nonempty [of "CHR '' ''" ?ft] by auto
  have last_visible: "\<not> is_ws (last ?ft)" using ft_ne by (rule trim_last_not_ws)
  then have "last ?ft \<noteq> CHR '' ''" by (auto simp: is_ws_def)
  with ft_ne have lw: "last ?ws \<noteq> []" "last (last ?ws) = last ?ft"
    using last_split_on [of ?ft "CHR '' ''"] by simp_all
  have "last ?ws = last g'" using r(1,3) by simp
  with lw have lg: "last g' \<noteq> []" "last (last g') = last ?ft" by simp_all
  have "last g' \<in> set (dropWhile (\<lambda>w. w = []) g')"
    using r(3) lg(1) by (intro mem_dropWhile) simp_all
  then have "set (last g') \<subseteq> set cur" unfolding r(4) by (rule set_join)
  moreover have "last (last g') \<in> set (last g')" using lg(1) by simp
  ultimately have "last ?ft \<in> set cur" using lg(2) by auto
  with last_visible have cur_visible: "trim cur \<noteq> []" by (auto simp: trim_nonempty_iff)
  have "doc_text (indexed_chunk sec idx cur) = trim (join '' '' g')"
    unfolding r(4) by (simp add: indexed_chunk_def trim_join_dropWhile)
  with r(5) cur_visible run False
  have "map doc_text (section_chunks sec M ?ft) = map (\<lambda>g. trim (join '' '' g)) (gs @ [g'])"
    by (simp add: section_chunks_def)
  moreover have "concat (gs @ [g']) = ?ws" using r(1) by simp
  moreover have "[] \<notin> set (gs @ [g'])" using r(2,3) by simp
  ultimately show ?thesis by blast
qed

text \<open>
  Claim C5, as amended. The chunks that the route's word-aware chunker makes of a
  section are, in order, the trimmed space-joins of non-empty runs of consecutive
  words of the section's text (the pieces of its split at spaces), and the runs put
  together are all the words: a chunk boundary never falls inside a word. Only
  trimming touches a word: the first and the last word of a chunk lose the white space
  other than spaces (line breaks, tabs) at their outer end.
\<close>

theorem word_chunks_are_runs_of_whole_words:
  "\<exists>gs. concat gs = split_on CHR '' '' (trim (fullText_of section)) \<and> [] \<notin> set gs \<and>
        map doc_text (chunkAndPrepareDocuments [section] M) =
          map (\<lambda>g. trim (join '' '' g)) gs"
  using section_chunks_runs [of "fullText_of section" "section" M]
  by (simp add: chunkAndPrepareDocuments_def)

text \<open>Claim C5 as stated fails: the word \<open>T\n\nabc\n\<close> of the text, a maximal
  run of characters other than spaces, stands whole in no chunk; the chunk made of it
  is \<open>T\n\nabc\<close>, without the final line break.\<close>

theorem word_trimmed_at_chunk_edge_counterexample:
  "[CHR ''T'', LF, LF, CHR ''a'', CHR ''b'', CHR ''c'', LF]
     \<in> set (split_on CHR '' '' (trim (fullText_of sec1))) \<and>
   \<not> (\<exists>c\<in>set (chunkAndPrepareDocuments [sec1] 12).
         sublist [CHR ''T'', LF, LF, CHR ''a'', CHR ''b'', CHR ''c'', LF] (doc_text c))"
  by code_simp


section \<open>The answer composer\<close>

text \<open>
  Claim C3. For every question that is empty or consists of white space only, the chat
  entry point \<open>answerLegalQuestion\<close> fails with the error \<open>Question cannot be
  empty.\<close> (the spec's InvalidInput), and it makes no external call: the list of calls
  and the world are as they were.
\<close>

theorem empty_question_rejected_before_any_call:
  assumes "trim question = []"
  shows "fst (answerLegalQuestion env question s) = Inl (Error ''Question cannot be empty.'') \<and>
         calls (snd (answerLegalQuestion env question s)) = calls s \<and>
         world (snd (answerLegalQuestion env question s)) = world s"
  using assms by (simp add: answerLegalQuestion_def)

theorem empty_question_rejected_before_any_call_witness:
  "trim [CHR '' '', CHR 0x09, LF] = [] \<and>
   fst (answerLegalQuestion (mock_env [match378]) [CHR '' '', CHR 0x09, LF] (fresh ()))
     = Inl (Error ''Question cannot be empty.'') \<and>
   calls (snd (answerLegalQuestion (mock_env [match378]) [CHR '' '', CHR 0x09, LF] (fresh ()))) = []"
proof -
  have t: "trim [CHR '' '', CHR 0x09, LF] = []" by code_simp
  from empty_question_rejected_before_any_call [OF t, of "mock_env [match378]" "fresh ()"] t
  show ?thesis by (simp add: fresh_def)
qed

text \<open>The HTTP route in front of the entry point answers such a question with status
  400 and never reaches \<open>answerLegalQuestion\<close>. Once the process is initialized it
  makes no external call either; on the first request of a process its one-time
  initialization has read the index statistics before the question is looked at.\<close>

lemma POST_chat_empty_question_initialized:
  assumes "trim question = []" and "initialized s"
  shows "fst (POST_chat env question s) = Json400 ''Question is required.'' \<and>
         calls (snd (POST_chat env question s)) = calls s \<and>
         world (snd (POST_chat env question s)) = world s"
  using assms by (simp add: POST_chat_def ensureInitialized_def)

lemma POST_chat_empty_question_cold_start: "calls (snd (POST_chat (mock_env []) [] (fresh ()))) = [IndexStats]"
  by code_simp

lemma retrieve_zero_matches:
  assumes "\<forall>v k w. fst (index_query env v k w) = Inr []"
  shows "fst (retrieveWithPinecone env question limit s) = []"
proof -
  have no_match: "index_query env v k w = (Inr ms, w') \<Longrightarrow> ms = []" for v k w ms w'
    using assms [rule_format, of v k w] by simp
  show ?thesis
    by (auto simp: retrieveWithPinecone_def Let_def external_def
             split: prod.splits sum.splits list.splits dest: no_match)
qed

text \<open>A match is usable when its \<open>text\<close>, \<open>content\<close> or \<open>body\<close> holds a truthy
  value; the retrieval drops the others, and keeps nothing when no match is usable.\<close>

lemma retrieved_text_truthy:
  "\<forall>doc\<in>set (fst (retrieveWithPinecone env question limit s)). js_truthy (idoc_text doc)"
  by (auto simp: retrieveWithPinecone_def Let_def split: prod.splits sum.splits list.splits)

lemma retrieve_no_usable_text:
  assumes "\<forall>v k w ms w'. index_query env v k w = (Inr ms, w') \<longrightarrow>
             (\<forall>m\<in>set ms. \<not> js_truthy (idoc_text (doc_of_match m)))"
  shows "fst (retrieveWithPinecone env question limit s) = []"
proof -
  have unusable: "index_query env v k w = (Inr ms, w') \<Longrightarrow>
      filter (\<lambda>doc. js_truthy (idoc_text doc)) (map doc_of_match ms) = []" for v k w ms w'
    using assms [rule_format, of v k w ms w'] by (auto simp: filter_empty_conv)
  show ?thesis
    by (auto simp: retrieveWithPinecone_def Let_def external_def
             split: prod.splits sum.splits list.splits dest: unusable)
qed

text \<open>A truthy text that is not a string makes a match usable: the retrieval keeps a
  match whose \<open>text\<close> is the number 5, the completion service is called with it in
  the context, and building the sources then throws. This run is outside the condition
  of claim C6, whose retrieval yields nothing.\<close>

lemma numeric_text_kept_and_thrown:
  "fst (retrieveWithPinecone (mock_env [match_numeric_text]) ''what is theft'' 8 (fresh ()))
     = [doc_of_match match_numeric_text] \<and>
   fst (answerLegalQuestion (mock_env [match_numeric_text]) ''what is theft'' (fresh ()))
     = Inl (TypeError ''doc.text.slice is not a function'') \<and>
   calls (snd (answerLegalQuestion (mock_env [match_numeric_text]) ''what is theft'' (fresh ())))
     = [EmbeddingsCreate [''what is theft''], IndexQuery [0] 8,
        ChatCreate system_prompt
          (''User question: what is theft'' @ [LF, LF] @ ''CONTEXT FROM LEGAL SECTIONS:'' @ [LF]
             @ ''Unknown act'' @ [LF, LF] @ ''5'')]"
  by code_simp

text \<open>
  Claim C6. For every question that is not empty after trimming, with the vector index
  configured: if the index answers every query with zero matches, or no match it
  returns is usable, or the retrieval yields no document for whatever other reason (a
  failing embedding, index handle or query), \<open>answerLegalQuestion\<close> does not throw; it
  returns the fixed message, which contains \<open>could not find\<close>, and no sources.
\<close>

theorem no_match_answer_without_throw:
  assumes "trim question \<noteq> []" and "pineconeConfigured env"
    and "(\<forall>v k w. fst (index_query env v k w) = Inr []) \<or>
         (\<forall>v k w ms w'. index_query env v k w = (Inr ms, w') \<longrightarrow>
            (\<forall>m\<in>set ms. \<not> js_truthy (idoc_text (doc_of_match m)))) \<or>
         fst (retrieveWithPinecone env (trim question) 8
                (logmsg ragLogger INFO ''Processing legal question'' s)) = []"
  shows "fst (answerLegalQuestion env question s)
           = Inr \<lparr>answer = no_match_message, sources = []\<rparr> \<and>
         sublist ''could not find'' no_match_message"
proof -
  have "fst (retrieveWithPinecone env (trim question) 8
                (logmsg ragLogger INFO ''Processing legal question'' s)) = []"
    using assms(3) retrieve_zero_matches retrieve_no_usable_text by blast
  then obtain s2 where
    "retrieveWithPinecone env (trim question) 8
       (logmsg ragLogger INFO ''Processing legal question'' s) = ([], s2)"
    by (metis prod.collapse)
  then have "fst (answerLegalQuestion env question s)
               = Inr \<lparr>answer = no_match_message, sources = []\<rparr>"
    using assms(1,2) by (simp add: answerLegalQuestion_def Let_def)
  moreover have "sublist ''could not find'' no_match_message" by code_simp
  ultimately show ?thesis ..
qed

theorem no_match_answer_without_throw_witness:
  "trim ''what is theft'' \<noteq> [] \<and> pineconeConfigured (mock_env []) \<and>
   (\<forall>v k w. fst (index_query (mock_env []) v k w) = Inr []) \<and>
   fst (answerLegalQuestion (mock_env []) ''what is theft'' (fresh ()))
     = Inr \<lparr>answer = no_match_message, sources = []\<rparr> \<and>
   pineconeConfigured (mock_env [match_unusable]) \<and>
   fst (index_query (mock_env [match_unusable]) [0] 8 ()) = Inr [match_unusable] \<and>
   \<not> js_truthy (idoc_text (doc_of_match match_unusable)) \<and>
   fst (answerLegalQuestion (mock_env [match_unusable]) ''what is theft'' (fresh ()))
     = Inr \<lparr>answer = no_match_message, sources = []\<rparr>"
proof -
  have h1: "trim ''what is theft'' \<noteq> []" by code_simp
  have h2: "pineconeConfigured (mock_env ms)" for ms
    by (simp add: pineconeConfigured_def mock_env_def)
  have h3: "\<forall>v k w. fst (index_query (mock_env []) v k w) = Inr []" by (simp add: mock_env_def)
  have unusable: "\<not> js_truthy (idoc_text (doc_of_match match_unusable))" by code_simp
  have returned: "fst (index_query (mock_env [match_unusable]) [0] 8 ()) = Inr [match_unusable]"
    by (simp add: mock_env_def)
  have h4: "\<forall>v k w ms w'. index_query (mock_env [match_unusable]) v k w = (Inr ms, w') \<longrightarrow>
              (\<forall>m\<in>set ms. \<not> js_truthy (idoc_text (doc_of_match m)))"
  proof (intro allI impI ballI)
    fix v k w ms w' m
    assume q: "index_query (mock_env [match_unusable]) v k w = (Inr ms, w')" and m: "m \<in> set ms"
    from q have "ms = take k [match_unusable]" by (simp add: mock_env_def)
    with m have "m = match_unusable" using set_take_subset [of k "[match_unusable]"] by auto
    with unusable show "\<not> js_truthy (idoc_text (doc_of_match m))" by simp
  qed
  from no_match_answer_without_throw [OF h1 h2 disjI1 [OF h3], of "fresh ()"]
    no_match_answer_without_throw [OF h1 h2 disjI2 [OF disjI1 [OF h4]], of "fresh ()"]
    h1 h2 h3 unusable returned
  show ?thesis by blast
qed

text \<open>The header of a context block joins its parts with \<open>" - "\<close>, the title
  included.\<close>

lemma headerParts_full:
  assumes "act \<noteq> []" and "sec \<noteq> []" and "title \<noteq> []"
  shows "headerParts \<lparr>idoc_id = i, idoc_act = JStr act, idoc_section = Some (JStr sec),
                      idoc_title = Some (JStr title), idoc_text = t, idoc_source = src,
                      idoc_score = sc\<rparr>
         = act @ '' - Section '' @ sec @ '' - '' @ title"
  using assms by (simp add: headerParts_def)

text \<open>
  Claim C7, as amended. For a match with the metadata act \<open>IPC\<close>, section \<open>378\<close>,
  title \<open>Theft\<close> and the text \<open>Whoever, intending to take dishonestly...\<close>, the
  context block is \<open>IPC - Section 378 - Theft\<close>, an empty line, and the text; and this
  is the context that \<open>answerLegalQuestion\<close> sends to the completion service in the
  user message.
\<close>

theorem context_block_for_section_378:
  "contextBlock (doc_of_match match378)
     = ''IPC - Section 378 - Theft'' @ [LF, LF] @ ''Whoever, intending to take dishonestly...'' \<and>
   calls (snd (answerLegalQuestion (mock_env [match378]) ''what is theft'' (fresh ())))
     = [EmbeddingsCreate [''what is theft''], IndexQuery [0] 8,
        ChatCreate system_prompt
          (''User question: what is theft'' @ [LF, LF] @ ''CONTEXT FROM LEGAL SECTIONS:'' @ [LF]
             @ ''IPC - Section 378 - Theft'' @ [LF, LF]
             @ ''Whoever, intending to take dishonestly...'')]"
  by code_simp

text \<open>Claim C7 as stated fails: the context assembled from that match does not
  contain \<open>IPC - Section 378: Theft\<close>.\<close>

theorem context_header_colon_counterexample:
  "fst (retrieveWithPinecone (mock_env [match378]) ''what is theft'' 8 (fresh ()))
     = [doc_of_match match378] \<and>
   \<not> sublist ''IPC - Section 378: Theft'' (context_of [doc_of_match match378])"
  by code_simp

section \<open>The formatter\<close>

text \<open>
  Claim C8 says that \<open>parse("**bold** and *italic*")\<close> is one paragraph with the text
  \<open>bold and italic\<close>. The code gives one paragraph with the markers still in it:
  \<open>flushParagraph\<close> joins the lines and does not call \<open>stripEmphasis\<close>, which the
  heading and the list paths do.
\<close>

theorem paragraph_keeps_emphasis_markers:
  "parseAssistantContent ''**bold** and *italic*'' = [Paragraph ''**bold** and *italic*'']"
  by code_simp

lemma stripEmphasis_bold_italic: "stripEmphasis ''**bold** and *italic*'' = ''bold and italic''"
  by code_simp

lemma heading_and_list_strip_emphasis:
  "parseAssistantContent ''# **bold** and *italic*'' = [Heading ''bold and italic'']"
  "parseAssistantContent ''- **bold** and *italic*'' = [ListBlock [''bold and italic'']]"
  by code_simp+

section \<open>The embedding gateway\<close>

text \<open>
  Claim C9. \<open>embedTexts\<close> of the empty list returns the empty list of embeddings and
  makes no call to the embedding service: the list of calls and the world are as they
  were.
\<close>

theorem embedTexts_empty_no_call:
  "fst (embedTexts env [] s) = Inr [] \<and>
   calls (snd (embedTexts env [] s)) = calls s \<and>
   world (snd (embedTexts env [] s)) = world s"
  by (simp add: embedTexts_def)


section \<open>Ingestion: failing batches\<close>

text \<open>What reaches the \<open>catch\<close> of a loop comes from the embedding and the upsert;
  neither logs through \<open>indexLogger\<close>, so its error entries are the loops' own.\<close>

lemma error_logs_logmsg:
  "error_logs lg (logmsg lg' lv msg s) =
     error_logs lg s @ (if lg' = lg \<and> lv = ERROR then [msg] else [])"
  by (simp add: error_logs_def logmsg_def)

lemma error_logs_update [simp]:
  "error_logs lg (s\<lparr>openai_client := b\<rparr>) = error_logs lg s"
  "error_logs lg (s\<lparr>pinecone_client := b\<rparr>) = error_logs lg s"
  "error_logs lg (s\<lparr>world := w, calls := c\<rparr>) = error_logs lg s"
  by (simp_all add: error_logs_def)

lemma getOpenAIClient_error_logs:
  "error_logs indexLogger (snd (getOpenAIClient env s)) = error_logs indexLogger s"
  by (simp add: getOpenAIClient_def Let_def error_logs_logmsg split: sum.splits)

lemma external_error_logs:
  "error_logs lg (snd (external c service s)) = error_logs lg s"
  by (simp add: external_def split: prod.splits)

lemma embedTexts_error_logs:
  "error_logs indexLogger (snd (embedTexts env texts s)) = error_logs indexLogger s"
proof (cases "texts = []")
  case True
  then show ?thesis by (simp add: embedTexts_def error_logs_logmsg)
next
  case False
  let ?s1 = "logmsg openaiLogger DEBUG
               (''Generating embeddings for '' @ show_nat (length texts) @ '' text(s)'') s"
  have s1: "error_logs indexLogger ?s1 = error_logs indexLogger s"
    by (simp add: error_logs_logmsg)
  obtain r s2 where c: "getOpenAIClient env ?s1 = (r, s2)" by (cases "getOpenAIClient env ?s1")
  have s2: "error_logs indexLogger s2 = error_logs indexLogger s"
    using getOpenAIClient_error_logs [of env ?s1] c s1 by simp
  obtain r' s3 where e: "external (EmbeddingsCreate texts) (embeddings_create env texts) s2 = (r', s3)"
    by (cases "external (EmbeddingsCreate texts) (embeddings_create env texts) s2")
  have s3: "error_logs indexLogger s3 = error_logs indexLogger s"
    using external_error_logs [of indexLogger "EmbeddingsCreate texts" "embeddings_create env texts" s2]
      e s2 by simp
  show ?thesis
    using False c e s2 s3
    by (simp add: embedTexts_def Let_def error_logs_logmsg split: sum.splits)
qed

lemma embed_and_upsert_error_logs:
  "error_logs indexLogger (snd (embed_and_upsert env limit batch s)) = error_logs indexLogger s"
proof -
  obtain r s1 where e: "embedTexts env (map doc_text batch) s = (r, s1)"
    by (cases "embedTexts env (map doc_text batch) s")
  have s1: "error_logs indexLogger s1 = error_logs indexLogger s"
    using embedTexts_error_logs [of env "map doc_text batch" s] e by simp
  show ?thesis
    using e s1 by (simp add: embed_and_upsert_def Let_def external_error_logs split: sum.splits)
qed

subsection \<open>One batch\<close>

lemma POST_index_batch_outcome:
  assumes "POST_index_batch env chunks i t s = (outcome, t', s')"
  shows "isl outcome = isl (fst (embed_and_upsert env 1000 (take 50 (drop i chunks)) s))"
    and "t' = (if isl outcome then t else t + length (take 50 (drop i chunks)))"
    and "error_logs indexLogger s' =
           error_logs indexLogger s
             @ (case outcome of
                  Inl e \<Rightarrow> [''Failed to index batch starting at '' @ show_nat i]
                | Inr u \<Rightarrow> [])"
  using assms embed_and_upsert_error_logs [of env 1000 "take 50 (drop i chunks)" s]
  by (auto simp: POST_index_batch_def Let_def error_logs_logmsg split: prod.splits sum.splits)

lemma upload_batch_outcome:
  assumes "upload_batch env docs i acc s = (outcome, acc', s')"
  shows "fst acc' = (if isl outcome then fst acc else fst acc + length (take 50 (drop i docs)))"
    and "snd acc' =
           snd acc
             @ (case outcome of
                  Inl e \<Rightarrow> [''Failed to upload batch '' @ show_nat (i div 50 + 1) @ '': ''
                              @ String_of e]
                | Inr u \<Rightarrow> [])"
    and "error_logs indexLogger s' = error_logs indexLogger s @ drop (length (snd acc)) (snd acc')"
  using assms
    embed_and_upsert_error_logs [of env 2000 "take 50 (drop i docs)"
      "logmsg indexLogger DEBUG
         (''Processing batch '' @ show_nat (i div 50 + 1) @ '' (''
            @ show_nat (length (take 50 (drop i docs))) @ '' documents)'') s"]
  by (auto simp: upload_batch_def Let_def error_logs_logmsg split: prod.splits sum.splits)

subsection \<open>The loops of the route and of the upload\<close>

lemma take_drop_step: "take n (drop i xs) @ drop (i + n) xs = drop i xs"
proof -
  have "drop (i + n) xs = drop n (drop i xs)" by (simp add: add.commute)
  then show ?thesis by (simp only: append_take_drop_id)
qed

lemma POST_index_loop_history:
  "attempted (POST_index_history env chunks i t s) = drop i chunks \<and>
   fst (POST_index_loop env chunks i t s) = t + indexed_size (POST_index_history env chunks i t s) \<and>
   error_logs indexLogger (snd (POST_index_loop env chunks i t s)) =
     error_logs indexLogger s
       @ map (\<lambda>(i, e). ''Failed to index batch starting at '' @ show_nat i)
           (failures (POST_index_history env chunks i t s))"
proof (induction env chunks i t s rule: POST_index_loop.induct)
  case (1 env chunks i t s)
  show ?case
  proof (cases "i < length chunks")
    case False
    then show ?thesis
      by (simp add: POST_index_loop.simps [of env chunks i]
            POST_index_history.simps [of env chunks i] attempted_def)
  next
    case True
    obtain outcome t' s' where b: "POST_index_batch env chunks i t s = (outcome, t', s')"
      by (cases "POST_index_batch env chunks i t s")
    let ?h = "POST_index_history env chunks (i + 50) t' s'"
    have loop: "POST_index_loop env chunks i t s = POST_index_loop env chunks (i + 50) t' s'"
      using True b by (simp add: POST_index_loop.simps [of env chunks i])
    have hist: "POST_index_history env chunks i t s = (i, take 50 (drop i chunks), outcome) # ?h"
      using True b by (simp add: POST_index_history.simps [of env chunks i])
    have IH: "attempted ?h = drop (i + 50) chunks"
      "fst (POST_index_loop env chunks (i + 50) t' s') = t' + indexed_size ?h"
      "error_logs indexLogger (snd (POST_index_loop env chunks (i + 50) t' s')) =
         error_logs indexLogger s'
           @ map (\<lambda>(i, e). ''Failed to index batch starting at '' @ show_nat i) (failures ?h)"
      using "1.IH" [OF True b [symmetric] refl] by simp_all
    note o = POST_index_batch_outcome [OF b]
    have "attempted (POST_index_history env chunks i t s) = drop i chunks"
      using IH(1) by (simp add: hist attempted_def take_drop_step)
    moreover have "fst (POST_index_loop env chunks i t s)
        = t + indexed_size (POST_index_history env chunks i t s)"
      using IH(2) o(2) by (cases outcome) (simp_all add: loop hist)
    moreover have "error_logs indexLogger (snd (POST_index_loop env chunks i t s)) =
        error_logs indexLogger s
          @ map (\<lambda>(i, e). ''Failed to index batch starting at '' @ show_nat i)
              (failures (POST_index_history env chunks i t s))"
      using IH(3) o(3) by (cases outcome) (simp_all add: loop hist)
    ultimately show ?thesis by blast
  qed
qed

lemma upload_loop_history:
  "attempted (upload_history env docs i acc s) = drop i docs \<and>
   fst (fst (upload_loop env docs i acc s)) = fst acc + indexed_size (upload_history env docs i acc s) \<and>
   snd (fst (upload_loop env docs i acc s)) =
     snd acc
       @ map (\<lambda>(i, e). ''Failed to upload batch '' @ show_nat (i div 50 + 1) @ '': '' @ String_of e)
           (failures (upload_history env docs i acc s)) \<and>
   error_logs indexLogger (snd (upload_loop env docs i acc s)) =
     error_logs indexLogger s
       @ drop (length (snd acc)) (snd (fst (upload_loop env docs i acc s)))"
proof (induction env docs i acc s rule: upload_loop.induct)
  case (1 env docs i acc s)
  let ?msg = "\<lambda>(i, e). ''Failed to upload batch '' @ show_nat (i div 50 + 1) @ '': '' @ String_of e"
  show ?case
  proof (cases "i < length docs")
    case False
    then show ?thesis
      by (simp add: upload_loop.simps [of env docs i] upload_history.simps [of env docs i]
            attempted_def)
  next
    case True
    obtain outcome acc' s' where b: "upload_batch env docs i acc s = (outcome, acc', s')"
      by (cases "upload_batch env docs i acc s")
    let ?h = "upload_history env docs (i + 50) acc' s'"
    let ?r = "upload_loop env docs (i + 50) acc' s'"
    have loop: "upload_loop env docs i acc s = ?r"
      using True b by (simp add: upload_loop.simps [of env docs i])
    have hist: "upload_history env docs i acc s = (i, take 50 (drop i docs), outcome) # ?h"
      using True b by (simp add: upload_history.simps [of env docs i])
    have IH: "attempted ?h = drop (i + 50) docs"
      "fst (fst ?r) = fst acc' + indexed_size ?h"
      "snd (fst ?r) = snd acc' @ map ?msg (failures ?h)"
      "error_logs indexLogger (snd ?r) =
         error_logs indexLogger s' @ drop (length (snd acc')) (snd (fst ?r))"
      using "1.IH" [OF True b [symmetric] refl] by simp_all
    note o = upload_batch_outcome [OF b]
    have "attempted (upload_history env docs i acc s) = drop i docs"
      using IH(1) by (simp add: hist attempted_def take_drop_step)
    moreover have "fst (fst (upload_loop env docs i acc s))
        = fst acc + indexed_size (upload_history env docs i acc s)"
      using IH(2) o(1) by (cases outcome) (simp_all add: loop hist)
    moreover have errs: "snd (fst (upload_loop env docs i acc s)) =
        snd acc @ map ?msg (failures (upload_history env docs i acc s))"
      using IH(3) o(2) by (cases outcome) (simp_all add: loop hist)
    moreover have "error_logs indexLogger (snd (upload_loop env docs i acc s)) =
        error_logs indexLogger s
          @ drop (length (snd acc)) (snd (fst (upload_loop env docs i acc s)))"
      using IH(3,4) o(2,3) by (cases outcome) (simp_all add: loop hist)
    ultimately show ?thesis by blast
  qed
qed

subsection \<open>Counting on a history\<close>

lemma indexed_size_le: "indexed_size h \<le> length (attempted h)"
  by (induction h rule: indexed_size.induct) (simp_all add: attempted_def)

lemma indexed_size_all_iff:
  assumes "\<forall>(i, batch, outcome)\<in>set h. batch \<noteq> []"
  shows "indexed_size h = length (attempted h) \<longleftrightarrow> failures h = []"
  using assms
proof (induction h rule: indexed_size.induct)
  case 1
  then show ?case by (simp add: attempted_def)
next
  case (2 i batch u h)
  then show ?case by (simp add: attempted_def)
next
  case (3 i batch e h)
  then have pos: "0 < length batch" by simp
  have le: "indexed_size h \<le> length (attempted h)" by (rule indexed_size_le)
  have len: "length (attempted ((i, batch, Inl e) # h)) = length batch + length (attempted h)"
    by (simp add: attempted_def)
  have "indexed_size ((i, batch, Inl e) # h) = indexed_size h" by simp
  with pos le len have "indexed_size ((i, batch, Inl e) # h)
      \<noteq> length (attempted ((i, batch, Inl e) # h))"
    by linarith
  then show ?case by simp
qed

lemma upload_history_batches_nonempty:
  "\<forall>(j, batch, outcome)\<in>set (upload_history env docs i acc s). batch \<noteq> []"
proof (induction env docs i acc s rule: upload_history.induct)
  case (1 env docs i acc s)
  show ?case
  proof (cases "i < length docs")
    case False
    then show ?thesis by (simp add: upload_history.simps [of env docs i])
  next
    case True
    obtain outcome acc' s' where b: "upload_batch env docs i acc s = (outcome, acc', s')"
      by (cases "upload_batch env docs i acc s")
    have "take 50 (drop i docs) \<noteq> []" using True by simp
    then show ?thesis
      using True b "1.IH" [OF True b [symmetric] refl]
      by (simp add: upload_history.simps [of env docs i])
  qed
qed

subsection \<open>The upload\<close>

lemma upload_empty:
  "uploadDocumentsToPinecone env [] s =
     (Inr \<lparr>uploadedChunks = 0, errors = None\<rparr>,
      logmsg indexLogger WARN ''No documents provided for upload'' s)"
  by (simp add: uploadDocumentsToPinecone_def)

lemma upload_returns:
  assumes "fst (uploadDocumentsToPinecone env docs s) = Inr r"
  shows "uploadedChunks r = indexed_size (upload_run_history env docs s) \<and>
         attempted (upload_run_history env docs s) = docs \<and>
         (errors r = None \<longleftrightarrow> failures (upload_run_history env docs s) = [])"
proof (cases "docs = []")
  case True
  with assms show ?thesis
    by (auto simp: upload_empty upload_run_history_def upload_history.simps [of env "[]"]
          attempted_def)
next
  case False
  let ?s1 = "logmsg indexLogger INFO
               (''Starting upload of '' @ show_nat (length docs) @ '' documents to Pinecone'') s"
  obtain g s2 where g: "getPineconeIndex env ?s1 = (g, s2)" by (cases "getPineconeIndex env ?s1")
  obtain cnt errs s3 where l: "upload_loop env docs 0 (0, []) s2 = ((cnt, errs), s3)"
    by (metis prod.collapse)
  have h: "upload_run_history env docs s = upload_history env docs 0 (0, []) s2"
    using g by (simp add: upload_run_history_def)
  from assms False g have "\<not> isl g"
    by (auto simp: uploadDocumentsToPinecone_def Let_def split: sum.splits)
  with assms False g l have r: "r = \<lparr>uploadedChunks = cnt,
                                    errors = (if length errs > 0 then Some errs else None)\<rparr>"
    by (auto simp: uploadDocumentsToPinecone_def Let_def split: sum.splits)
  from upload_loop_history [of env docs 0 "(0, [])" s2] l h
  have "attempted (upload_run_history env docs s) = docs"
    and "cnt = indexed_size (upload_run_history env docs s)"
    and "errs = map (\<lambda>(i, e). ''Failed to upload batch '' @ show_nat (i div 50 + 1) @ '': ''
                              @ String_of e) (failures (upload_run_history env docs s))"
    by simp_all
  with r show ?thesis by auto
qed

text \<open>
  Claim C10. For every list of documents: on the empty list
  \<open>uploadDocumentsToPinecone\<close> returns \<open>uploadedChunks = 0\<close> without an \<open>errors\<close>
  field and makes no external call; whenever it returns, \<open>uploadedChunks\<close> is at
  most the number of documents, and the \<open>errors\<close> field is absent exactly when no
  batch failed, which is exactly when \<open>uploadedChunks\<close> is the number of documents.
  It returns unless \<open>getPineconeIndex\<close> throws, whose error it passes on.
\<close>

theorem upload_counts_and_errors:
  "(docs = [] \<longrightarrow>
      fst (uploadDocumentsToPinecone env docs s) = Inr \<lparr>uploadedChunks = 0, errors = None\<rparr> \<and>
      calls (snd (uploadDocumentsToPinecone env docs s)) = calls s \<and>
      world (snd (uploadDocumentsToPinecone env docs s)) = world s) \<and>
   (\<forall>r. fst (uploadDocumentsToPinecone env docs s) = Inr r \<longrightarrow>
      uploadedChunks r \<le> length docs \<and>
      (errors r = None \<longleftrightarrow> failures (upload_run_history env docs s) = []) \<and>
      (errors r = None \<longleftrightarrow> uploadedChunks r = length docs)) \<and>
   (\<forall>e. fst (uploadDocumentsToPinecone env docs s) = Inl e \<longrightarrow>
      docs \<noteq> [] \<and>
      fst (getPineconeIndex env
             (logmsg indexLogger INFO
                (''Starting upload of '' @ show_nat (length docs) @ '' documents to Pinecone'') s))
        = Inl e)"
proof (intro conjI allI impI)
  assume "docs = []"
  then show "fst (uploadDocumentsToPinecone env docs s) = Inr \<lparr>uploadedChunks = 0, errors = None\<rparr>"
    and "calls (snd (uploadDocumentsToPinecone env docs s)) = calls s"
    and "world (snd (uploadDocumentsToPinecone env docs s)) = world s"
    by (simp_all add: upload_empty)
next
  fix r assume r: "fst (uploadDocumentsToPinecone env docs s) = Inr r"
  let ?h = "upload_run_history env docs s"
  note u = upload_returns [OF r]
  have ne: "\<forall>(j, batch, outcome)\<in>set ?h. batch \<noteq> []"
    unfolding upload_run_history_def by (rule upload_history_batches_nonempty)
  show "uploadedChunks r \<le> length docs"
    using u indexed_size_le [of ?h] by simp
  show e: "errors r = None \<longleftrightarrow> failures ?h = []" using u by simp
  show "errors r = None \<longleftrightarrow> uploadedChunks r = length docs"
    using e u indexed_size_all_iff [OF ne] by simp
next
  fix e assume e: "fst (uploadDocumentsToPinecone env docs s) = Inl e"
  then show "docs \<noteq> []" by (auto simp: upload_empty)
  with e show "fst (getPineconeIndex env
             (logmsg indexLogger INFO
                (''Starting upload of '' @ show_nat (length docs) @ '' documents to Pinecone'') s))
        = Inl e"
    by (auto simp: uploadDocumentsToPinecone_def Let_def split: prod.splits sum.splits)
qed

theorem upload_counts_and_errors_witness:
  "fst (uploadDocumentsToPinecone (mock_env []) [] (fresh ()))
     = Inr \<lparr>uploadedChunks = 0, errors = None\<rparr> \<and>
   calls (snd (uploadDocumentsToPinecone (mock_env []) [] (fresh ()))) = [] \<and>
   fst (uploadDocumentsToPinecone flaky_env (docs_n 120) (fresh 0))
     = Inr \<lparr>uploadedChunks = 70,
            errors = Some [''Failed to upload batch 2: Error: rate limit'']\<rparr> \<and>
   (70::nat) \<le> length (docs_n 120) \<and>
   failures (upload_run_history flaky_env (docs_n 120) (fresh 0)) \<noteq> [] \<and>
   fst (uploadDocumentsToPinecone ((mock_env [])\<lparr>PINECONE_INDEX := []\<rparr>) (docs_n 1) (fresh ()))
     = Inl (ConfigurationError ''Missing required environment variable: PINECONE_INDEX'') \<and>
   fst (getPineconeIndex ((mock_env [])\<lparr>PINECONE_INDEX := []\<rparr>)
          (logmsg indexLogger INFO
             (''Starting upload of '' @ show_nat (length (docs_n 1)) @ '' documents to Pinecone'')
             (fresh ())))
     = Inl (ConfigurationError ''Missing required environment variable: PINECONE_INDEX'')"
proof -
  have partial: "fst (uploadDocumentsToPinecone flaky_env (docs_n 120) (fresh 0))
     = Inr \<lparr>uploadedChunks = 70,
            errors = Some [''Failed to upload batch 2: Error: rate limit'']\<rparr>"
    by code_simp
  have thrown: "fst (uploadDocumentsToPinecone ((mock_env [])\<lparr>PINECONE_INDEX := []\<rparr>)
                       (docs_n 1) (fresh ()))
     = Inl (ConfigurationError ''Missing required environment variable: PINECONE_INDEX'')"
    by code_simp
  have fresh_calls: "calls (fresh ()) = []" by (simp add: fresh_def)
  from upload_counts_and_errors [of "[]" "mock_env []" "fresh ()"]
    upload_counts_and_errors [of "docs_n 120" flaky_env "fresh 0"]
    upload_counts_and_errors [of "docs_n 1" "(mock_env [])\<lparr>PINECONE_INDEX := []\<rparr>" "fresh ()"]
    partial thrown fresh_calls
  show ?thesis by simp
qed

subsection \<open>The loop of the script\<close>

lemma indexToPinecone_loop_rethrows:
  assumes "i < length chunks"
    and "embed_and_upsert env 2000 (take batchSize (drop i chunks))
           (logmsg indexLogger DEBUG
              (''Generating embeddings for batch '' @ show_nat (i div batchSize + 1)) s)
         = (Inl e, s1)"
  shows "indexToPinecone_loop env chunks batchSize i totalIndexed s =
           Some (Inl e, logmsg indexLogger ERROR
                          (''Failed to index batch starting at '' @ show_nat i) s1)"
  using assms by (subst indexToPinecone_loop.simps) (simp add: Let_def)

lemma indexToPinecone_loop_returns:
  assumes "0 < batchSize"
  shows "\<exists>res. indexToPinecone_loop env chunks batchSize i t s = Some res \<and>
               (\<forall>n. fst res = Inr n \<longrightarrow> n = t + (length chunks - i))"
proof (induction "length chunks - i" arbitrary: i t s rule: less_induct)
  case less
  show ?case
  proof (cases "i < length chunks")
    case False
    then have "indexToPinecone_loop env chunks batchSize i t s = Some (Inr t, s)"
      by (subst indexToPinecone_loop.simps) simp
    with False show ?thesis by simp
  next
    case True
    let ?batch = "take batchSize (drop i chunks)"
    let ?s0 = "logmsg indexLogger DEBUG
                 (''Generating embeddings for batch '' @ show_nat (i div batchSize + 1)) s"
    obtain r s1 where a: "embed_and_upsert env 2000 ?batch ?s0 = (r, s1)"
      by (cases "embed_and_upsert env 2000 ?batch ?s0")
    show ?thesis
    proof (cases r)
      case (Inl e)
      with a have "indexToPinecone_loop env chunks batchSize i t s =
          Some (Inl e, logmsg indexLogger ERROR
                         (''Failed to index batch starting at '' @ show_nat i) s1)"
        by (intro indexToPinecone_loop_rethrows [OF True]) simp
      then show ?thesis by simp
    next
      case (Inr u)
      let ?s2 = "logmsg indexLogger INFO
                   (''Indexed '' @ show_nat (t + length ?batch) @ ''/''
                      @ show_nat (length chunks) @ '' chunks'') s1"
      have step: "indexToPinecone_loop env chunks batchSize i t s =
                  indexToPinecone_loop env chunks batchSize (i + batchSize) (t + length ?batch) ?s2"
        using True a Inr by (subst indexToPinecone_loop.simps) (simp add: Let_def)
      have "length chunks - (i + batchSize) < length chunks - i" using True assms by simp
      from less.hyps [OF this, of "t + length ?batch" ?s2] obtain res where
        res: "indexToPinecone_loop env chunks batchSize (i + batchSize) (t + length ?batch) ?s2
                = Some res"
             "\<forall>n. fst res = Inr n \<longrightarrow> n = t + length ?batch + (length chunks - (i + batchSize))"
        by blast
      have eq: "t + length ?batch + (length chunks - (i + batchSize)) = t + (length chunks - i)"
        using True by (simp add: min_def)
      have "\<forall>n. fst res = Inr n \<longrightarrow> n = t + (length chunks - i)"
        using res(2) unfolding eq .
      with res(1) step show ?thesis by simp
    qed
  qed
qed

text \<open>
  Claim C2, as amended. In the loop of the indexing route and in the loop of
  \<open>uploadDocumentsToPinecone\<close>, every batch is attempted, in order, whatever the
  outcome of the batches before it; each batch whose embedding or upsert fails is
  logged by \<open>indexLogger\<close> at level \<open>ERROR\<close> (and, in the upload, recorded in
  \<open>errors\<close> with its batch number and error); and \<open>totalIndexed\<close>, respectively
  \<open>uploadedCount\<close>, is the total size of the batches that succeeded. The script's
  \<open>indexToPinecone\<close> is different by design: at a failing batch it logs the failure and
  rethrows, so the run ends there; it returns, and when it returns a total, no batch
  has failed and the total is the number of chunks.
\<close>

theorem failing_batch_skipped_or_rethrown:
  "(attempted (POST_index_history env chunks 0 0 s) = chunks \<and>
    fst (POST_index_loop env chunks 0 0 s) = indexed_size (POST_index_history env chunks 0 0 s) \<and>
    error_logs indexLogger (snd (POST_index_loop env chunks 0 0 s)) =
      error_logs indexLogger s
        @ map (\<lambda>(i, e). ''Failed to index batch starting at '' @ show_nat i)
            (failures (POST_index_history env chunks 0 0 s))) \<and>
   (attempted (upload_history env chunks 0 (0, []) s) = chunks \<and>
    fst (fst (upload_loop env chunks 0 (0, []) s))
      = indexed_size (upload_history env chunks 0 (0, []) s) \<and>
    snd (fst (upload_loop env chunks 0 (0, []) s)) =
      map (\<lambda>(i, e). ''Failed to upload batch '' @ show_nat (i div 50 + 1) @ '': '' @ String_of e)
        (failures (upload_history env chunks 0 (0, []) s)) \<and>
    error_logs indexLogger (snd (upload_loop env chunks 0 (0, []) s)) =
      error_logs indexLogger s @ snd (fst (upload_loop env chunks 0 (0, []) s))) \<and>
   (0 < batchSize \<longrightarrow>
      (\<exists>res. indexToPinecone_loop env chunks batchSize 0 0 s = Some res \<and>
             (\<forall>n. fst res = Inr n \<longrightarrow> n = length chunks))) \<and>
   (\<forall>i e s1.
      i < length chunks \<and>
      embed_and_upsert env 2000 (take batchSize (drop i chunks))
        (logmsg indexLogger DEBUG
           (''Generating embeddings for batch '' @ show_nat (i div batchSize + 1)) s)
        = (Inl e, s1) \<longrightarrow>
      indexToPinecone_loop env chunks batchSize i totalIndexed s =
        Some (Inl e, logmsg indexLogger ERROR
                       (''Failed to index batch starting at '' @ show_nat i) s1))"
proof -
  have route: "attempted (POST_index_history env chunks 0 0 s) = chunks \<and>
    fst (POST_index_loop env chunks 0 0 s) = indexed_size (POST_index_history env chunks 0 0 s) \<and>
    error_logs indexLogger (snd (POST_index_loop env chunks 0 0 s)) =
      error_logs indexLogger s
        @ map (\<lambda>(i, e). ''Failed to index batch starting at '' @ show_nat i)
            (failures (POST_index_history env chunks 0 0 s))"
    using POST_index_loop_history [of env chunks 0 0 s] by simp
  have upload: "attempted (upload_history env chunks 0 (0, []) s) = chunks \<and>
    fst (fst (upload_loop env chunks 0 (0, []) s))
      = indexed_size (upload_history env chunks 0 (0, []) s) \<and>
    snd (fst (upload_loop env chunks 0 (0, []) s)) =
      map (\<lambda>(i, e). ''Failed to upload batch '' @ show_nat (i div 50 + 1) @ '': '' @ String_of e)
        (failures (upload_history env chunks 0 (0, []) s)) \<and>
    error_logs indexLogger (snd (upload_loop env chunks 0 (0, []) s)) =
      error_logs indexLogger s @ snd (fst (upload_loop env chunks 0 (0, []) s))"
    using upload_loop_history [of env chunks 0 "(0, [])" s] by simp
  have script: "0 < batchSize \<longrightarrow>
      (\<exists>res. indexToPinecone_loop env chunks batchSize 0 0 s = Some res \<and>
             (\<forall>n. fst res = Inr n \<longrightarrow> n = length chunks))"
    using indexToPinecone_loop_returns [of batchSize env chunks 0 0 s] by simp
  have rethrow: "\<forall>i e s1.
      i < length chunks \<and>
      embed_and_upsert env 2000 (take batchSize (drop i chunks))
        (logmsg indexLogger DEBUG
           (''Generating embeddings for batch '' @ show_nat (i div batchSize + 1)) s)
        = (Inl e, s1) \<longrightarrow>
      indexToPinecone_loop env chunks batchSize i totalIndexed s =
        Some (Inl e, logmsg indexLogger ERROR
                       (''Failed to index batch starting at '' @ show_nat i) s1)"
    using indexToPinecone_loop_rethrows by blast
  from route upload script rethrow show ?thesis by (intro conjI) blast+
qed

text \<open>Claim C2 as stated fails for the script: with three batches and an embedding
  error on the second, \<open>indexToPinecone\<close> ends with that error, reports no total, and
  the embedding service has been called twice only, so the third batch was never
  attempted.\<close>

theorem script_aborts_at_failing_batch_counterexample:
  "map_option (\<lambda>(r, s'). (r, world s')) (indexToPinecone flaky_env (docs_n 120) 50 (fresh 0))
     = Some (Inl (Error ''rate limit''), 2)"
  by code_simp

theorem failing_batch_skipped_or_rethrown_witness:
  "map (\<lambda>(i, batch, outcome). (i, length batch, outcome))
     (POST_index_history flaky_env (docs_n 120) 0 0 (fresh 0))
     = [(0, 50, Inr ()), (50, 50, Inl (Error ''rate limit'')), (100, 20, Inr ())] \<and>
   fst (POST_index_loop flaky_env (docs_n 120) 0 0 (fresh 0)) = 70 \<and>
   error_logs indexLogger (snd (POST_index_loop flaky_env (docs_n 120) 0 0 (fresh 0)))
     = [''Failed to index batch starting at 50''] \<and>
   fst (upload_loop flaky_env (docs_n 120) 0 (0, []) (fresh 0))
     = (70, [''Failed to upload batch 2: Error: rate limit'']) \<and>
   (0::nat) < 2 \<and>
   map_option fst (indexToPinecone_loop (mock_env []) (docs_n 3) 2 0 0 (fresh ()))
     = Some (Inr (length (docs_n 3))) \<and>
   0 < length (docs_n 2) \<and>
   fst (embed_and_upsert flaky_env 2000 (take 1 (drop 0 (docs_n 2)))
          (logmsg indexLogger DEBUG
             (''Generating embeddings for batch '' @ show_nat (0 div 1 + 1)) (fresh 1)))
     = Inl (Error ''rate limit'') \<and>
   map_option fst (indexToPinecone_loop flaky_env (docs_n 2) 1 0 0 (fresh 1))
     = Some (Inl (Error ''rate limit''))"
proof -
  note route = failing_batch_skipped_or_rethrown [of flaky_env "docs_n 120" "fresh 0" 50 0]
  note script_ok = failing_batch_skipped_or_rethrown [of "mock_env []" "docs_n 3" "fresh ()" 2 0]
  note script_fail = failing_batch_skipped_or_rethrown [of flaky_env "docs_n 2" "fresh 1" 1 0]
  have hist: "map (\<lambda>(i, batch, outcome). (i, length batch, outcome))
      (POST_index_history flaky_env (docs_n 120) 0 0 (fresh 0))
      = [(0, 50, Inr ()), (50, 50, Inl (Error ''rate limit'')), (100, 20, Inr ())]"
    by code_simp
  have size: "indexed_size (POST_index_history flaky_env (docs_n 120) 0 0 (fresh 0)) = 70"
    by code_simp
  have fails: "map (\<lambda>(i, e). ''Failed to index batch starting at '' @ show_nat i)
      (failures (POST_index_history flaky_env (docs_n 120) 0 0 (fresh 0)))
      = [''Failed to index batch starting at 50'']"
    by code_simp
  have usize: "indexed_size (upload_history flaky_env (docs_n 120) 0 (0, []) (fresh 0)) = 70"
    by code_simp
  have ufails: "map (\<lambda>(i, e). ''Failed to upload batch '' @ show_nat (i div 50 + 1) @ '': ''
                                @ String_of e)
      (failures (upload_history flaky_env (docs_n 120) 0 (0, []) (fresh 0)))
      = [''Failed to upload batch 2: Error: rate limit'']"
    by code_simp
  have no_logs: "error_logs indexLogger (fresh (0::nat)) = []"
    by (simp add: error_logs_def fresh_def)
  have total: "fst (POST_index_loop flaky_env (docs_n 120) 0 0 (fresh 0)) = 70"
    using route [THEN conjunct1, THEN conjunct2, THEN conjunct1] by (simp only: size)
  have logged: "error_logs indexLogger (snd (POST_index_loop flaky_env (docs_n 120) 0 0 (fresh 0)))
      = [''Failed to index batch starting at 50'']"
    using route [THEN conjunct1, THEN conjunct2, THEN conjunct2]
    by (simp only: fails no_logs append_Nil)
  have uploaded: "fst (upload_loop flaky_env (docs_n 120) 0 (0, []) (fresh 0))
      = (70, [''Failed to upload batch 2: Error: rate limit''])"
    using route [THEN conjunct2, THEN conjunct1, THEN conjunct2, THEN conjunct1]
      route [THEN conjunct2, THEN conjunct1, THEN conjunct2, THEN conjunct2, THEN conjunct1]
    by (simp only: usize ufails prod_eq_iff fst_conv snd_conv simp_thms)
  have ran: "map_option fst (indexToPinecone_loop (mock_env []) (docs_n 3) 2 0 0 (fresh ()))
      = Some (Inr 3)"
    by code_simp
  have two: "(0::nat) < 2" by simp
  from script_ok [THEN conjunct2, THEN conjunct2, THEN conjunct1, rule_format, OF two]
  obtain res where res: "indexToPinecone_loop (mock_env []) (docs_n 3) 2 0 0 (fresh ()) = Some res"
    "\<forall>n. fst res = Inr n \<longrightarrow> n = length (docs_n 3)"
    by blast
  from ran res(1) have "fst res = Inr 3" by simp
  with res(2) have three: "3 = length (docs_n 3)" by blast
  have all_indexed: "map_option fst (indexToPinecone_loop (mock_env []) (docs_n 3) 2 0 0 (fresh ()))
      = Some (Inr (length (docs_n 3)))"
    using ran three by simp
  have nonempty: "0 < length (docs_n 2)" by (simp add: docs_n_def)
  let ?s0 = "logmsg indexLogger DEBUG
               (''Generating embeddings for batch '' @ show_nat (0 div 1 + 1)) (fresh (1::nat))"
  let ?r = "embed_and_upsert flaky_env 2000 (take 1 (drop 0 (docs_n 2))) ?s0"
  have failed: "fst ?r = Inl (Error ''rate limit'')"
    by code_simp
  then have pair: "?r = (Inl (Error ''rate limit''), snd ?r)"
    by (simp only: prod_eq_iff fst_conv snd_conv simp_thms)
  have "indexToPinecone_loop flaky_env (docs_n 2) 1 0 0 (fresh 1) =
      Some (Inl (Error ''rate limit''),
            logmsg indexLogger ERROR (''Failed to index batch starting at '' @ show_nat 0) (snd ?r))"
    using script_fail [THEN conjunct2, THEN conjunct2, THEN conjunct2, rule_format,
                       of 0 "Error ''rate limit''" "snd ?r"] nonempty pair
    by blast
  then have rethrown: "map_option fst (indexToPinecone_loop flaky_env (docs_n 2) 1 0 0 (fresh 1))
      = Some (Inl (Error ''rate limit''))"
    by (simp only: option.map fst_conv)
  from hist total logged uploaded two all_indexed nonempty failed rethrown
  show ?thesis by (intro conjI)
qed

end
